theory Spec2Isabelle
  imports Complex_Main "HOL-Library.Multiset"
begin

section \<open>Data model (src/types/UserActivity.ts)\<close>

text \<open>
  The enum \<^verbatim>\<open>ActivityType\<close> is a string enum: at run time a kind is a plain
  string, and the records arrive through \<^verbatim>\<open>response.data as UserActivity[]\<close>
  or \<^verbatim>\<open>JSON.parse(...) as T\<close>, neither of which checks it. The field
  \<^verbatim>\<open>type\<close> is therefore a string, and the enumeration is the list of its
  ten members.
\<close>

definition ActivityType :: "string list" where
  "ActivityType =
     [''PAGE_VIEW'', ''CLICK'', ''SCROLL'', ''FORM_SUBMISSION'', ''VIDEO_PLAY'',
      ''VIDEO_PAUSE'', ''VIDEO_COMPLETE'', ''DOWNLOAD'', ''SHARE'', ''COMMENT'']"

text \<open>
  A JavaScript number is a double: \<^verbatim>\<open>NaN\<close>, one of the two infinities
  (\<^verbatim>\<open>JSON.parse\<close> yields them for \<^verbatim>\<open>1e999\<close> and \<^verbatim>\<open>-1e999\<close>), or a finite
  value, given by the real number it stands for (the two zeros are not told apart).
  Values that are integers by construction (the length of an array, the bucket counts,
  an index, a time value in milliseconds) are \<open>nat\<close> or \<open>int\<close>. Strings are byte
  strings (the UTF-8 encoding of the JavaScript string). The free-form
  \<^verbatim>\<open>metadata\<close> bag is opaque.
\<close>

datatype jsnumber = NaN | NegInfinity | Fin real | Infinity

record UserActivity =
  id' :: string
  userId :: string
  type :: string
  timestamp :: string
  path :: string
  device :: "string option"
  durationSec :: "jsnumber option"
  metadata :: "string option"

text \<open>
  \<^verbatim>\<open>activityByType\<close> is a JavaScript object used as a dictionary: the list of its
  own properties in the order \<^verbatim>\<open>Object.keys\<close> enumerates them. The value of a
  property is a count or, for a key that shadows a member of \<^verbatim>\<open>Object.prototype\<close>,
  a string (see \<open>countType\<close>).
\<close>

datatype propval = Count nat | Text string

record EngagementMetrics =
  totalActivities :: nat
  activityByType :: "(string \<times> propval) list"
  averageDurationSec :: jsnumber
  mostActiveHour :: int
  mostActiveDay :: int
  daysSinceLastActivity :: jsnumber
  engagementScore :: jsnumber

record ApiConfig =
  basePath :: string
  timeoutMs :: int
  apiKey :: "string option"

record CacheConfig =
  activityTtlSec :: int
  metricsTtlSec :: int

section \<open>The built-ins \<^verbatim>\<open>Date\<close> and \<^verbatim>\<open>Math\<close>\<close>

text \<open>
  \<^verbatim>\<open>Date\<close> and the arithmetic of numbers belong to the language, not to the
  repository. A time value is the number of milliseconds since the epoch. The host
  supplies the current time (\<^verbatim>\<open>new Date()\<close>), the parser of time stamps
  (\<^verbatim>\<open>new Date(s)\<close>, \<open>None\<close> for an invalid date, whose time value is NaN), the
  offset of local time at an instant, the rounding of a real number to a double
  (\<open>toDouble\<close>: to nearest, ties to even, an overflow giving an infinity) and
  \<^verbatim>\<open>Math.log\<close>, whose precision the language leaves to the implementation.
  Hours and week days follow ECMAScript: \<^verbatim>\<open>HourFromTime(LocalTime(t))\<close> and
  \<^verbatim>\<open>WeekDay(LocalTime(t))\<close>, the epoch being a Thursday.
\<close>

record host =
  now :: int
  parseDate :: "string \<Rightarrow> int option"
  localTZA :: "int \<Rightarrow> int"
  toDouble :: "real \<Rightarrow> jsnumber"
  Math_log :: "jsnumber \<Rightarrow> jsnumber"

definition getHours :: "host \<Rightarrow> int \<Rightarrow> nat" where
  "getHours c t = nat (((t + localTZA c t) div 3600000) mod 24)"

definition getDay :: "host \<Rightarrow> int \<Rightarrow> nat" where
  "getDay c t = nat ((((t + localTZA c t) div 86400000) + 4) mod 7)"

text \<open>
  The arithmetic of doubles (IEEE 754): an operation on finite values returns the exact
  result rounded by \<open>toDouble\<close>; NaN is contagious; the infinities follow the rules of
  the standard. \<open>js_truthy\<close> is the test \<^verbatim>\<open>if (x)\<close> on a number. In a division the
  divisor 0 is taken as \<open>+0\<close>; the service divides by positive constants and by the
  length of a non-empty array only.
\<close>

fun js_neg :: "jsnumber \<Rightarrow> jsnumber" where
  "js_neg NaN = NaN"
| "js_neg NegInfinity = Infinity"
| "js_neg Infinity = NegInfinity"
| "js_neg (Fin a) = Fin (- a)"

fun js_add :: "host \<Rightarrow> jsnumber \<Rightarrow> jsnumber \<Rightarrow> jsnumber" where
  "js_add c (Fin a) (Fin b) = toDouble c (a + b)"
| "js_add c NaN y = NaN"
| "js_add c x NaN = NaN"
| "js_add c Infinity NegInfinity = NaN"
| "js_add c NegInfinity Infinity = NaN"
| "js_add c Infinity y = Infinity"
| "js_add c x Infinity = Infinity"
| "js_add c NegInfinity y = NegInfinity"
| "js_add c x NegInfinity = NegInfinity"

definition js_sub :: "host \<Rightarrow> jsnumber \<Rightarrow> jsnumber \<Rightarrow> jsnumber" where
  "js_sub c x y = js_add c x (js_neg y)"

fun js_positive :: "jsnumber \<Rightarrow> bool" where
  "js_positive Infinity = True"
| "js_positive (Fin a) = (0 < a)"
| "js_positive _ = False"

fun js_mul :: "host \<Rightarrow> jsnumber \<Rightarrow> jsnumber \<Rightarrow> jsnumber" where
  "js_mul c (Fin a) (Fin b) = toDouble c (a * b)"
| "js_mul c x y =
     (if x = NaN \<or> y = NaN \<or> x = Fin 0 \<or> y = Fin 0 then NaN
      else if js_positive x = js_positive y then Infinity else NegInfinity)"

fun js_div :: "host \<Rightarrow> jsnumber \<Rightarrow> jsnumber \<Rightarrow> jsnumber" where
  "js_div c (Fin a) (Fin b) =
     (if b \<noteq> 0 then toDouble c (a / b)
      else if a = 0 then NaN else if 0 < a then Infinity else NegInfinity)"
| "js_div c NaN y = NaN"
| "js_div c x NaN = NaN"
| "js_div c (Fin a) y = Fin 0"
| "js_div c x (Fin b) = (if js_positive x = (0 \<le> b) then Infinity else NegInfinity)"
| "js_div c x y = NaN"

fun js_less :: "jsnumber \<Rightarrow> jsnumber \<Rightarrow> bool" where
  "js_less NaN y = False"
| "js_less x NaN = False"
| "js_less (Fin a) (Fin b) = (a < b)"
| "js_less x NegInfinity = False"
| "js_less NegInfinity y = True"
| "js_less Infinity y = False"
| "js_less x Infinity = True"

definition Math_max2 :: "jsnumber \<Rightarrow> jsnumber \<Rightarrow> jsnumber" where
  "Math_max2 x y = (if x = NaN \<or> y = NaN then NaN else if js_less x y then y else x)"

definition Math_min2 :: "jsnumber \<Rightarrow> jsnumber \<Rightarrow> jsnumber" where
  "Math_min2 x y = (if x = NaN \<or> y = NaN then NaN else if js_less y x then y else x)"

text \<open>
  \<^verbatim>\<open>Math.round\<close> is \<open>\<lfloor>x + 1/2\<rfloor>\<close> (a tie goes up), \<^verbatim>\<open>Math.floor\<close> is
  \<open>\<lfloor>x\<rfloor>\<close>; both are exact and leave NaN and the infinities as they are.
\<close>

fun Math_round :: "jsnumber \<Rightarrow> jsnumber" where
  "Math_round (Fin a) = Fin (of_int \<lfloor>a + 1 / 2\<rfloor>)"
| "Math_round x = x"

fun Math_floor :: "jsnumber \<Rightarrow> jsnumber" where
  "Math_floor (Fin a) = Fin (of_int \<lfloor>a\<rfloor>)"
| "Math_floor x = x"

fun js_truthy :: "jsnumber \<Rightarrow> bool" where
  "js_truthy NaN = False"
| "js_truthy (Fin a) = (a \<noteq> 0)"
| "js_truthy _ = True"

text \<open>The decimal digits of a natural number and of an integer.\<close>

definition digitChar :: "nat \<Rightarrow> char" where
  "digitChar d = ''0123456789'' ! (d mod 10)"

fun showNat :: "nat \<Rightarrow> string" where
  "showNat n = (if n < 10 then [digitChar n] else showNat (n div 10) @ [digitChar (n mod 10)])"

definition showInt :: "int \<Rightarrow> string" where
  "showInt i = (if i < 0 then CHR ''-'' # showNat (nat (- i)) else showNat (nat i))"

section \<open>Plain objects as dictionaries\<close>

text \<open>
  \<^verbatim>\<open>typeCounts\<close> is created as \<^verbatim>\<open>{}\<close> and so inherits from
  \<^verbatim>\<open>Object.prototype\<close>: its function-valued members, listed here with the string a
  function turns into under \<^verbatim>\<open>+\<close> (as V8 prints a native function), and the accessor
  \<^verbatim>\<open>__proto__\<close>, whose getter returns the prototype (\<^verbatim>\<open>[object Object]\<close> as a
  string) and whose setter ignores a value that is neither an object nor \<^verbatim>\<open>null\<close>.
\<close>

definition nativeSource :: "string \<Rightarrow> string" where
  "nativeSource name = ''function '' @ name @ ''() { [native code] }''"

definition objectPrototype :: "(string \<times> string) list" where
  "objectPrototype =
     (''constructor'', nativeSource ''Object'') #
     map (\<lambda>name. (name, nativeSource name))
       [''__defineGetter__'', ''__defineSetter__'', ''hasOwnProperty'',
        ''__lookupGetter__'', ''__lookupSetter__'', ''isPrototypeOf'',
        ''propertyIsEnumerable'', ''toString'', ''valueOf'', ''toLocaleString'']"

text \<open>
  The own properties of an object enumerate with the array indices first (canonical
  decimal strings up to \<open>2^32 - 2\<close>), in ascending order, and then the other keys in
  the order of their creation.
\<close>

definition arrayIndex :: "string \<Rightarrow> nat option" where
  "arrayIndex k =
     (if k \<noteq> [] \<and> list_all (\<lambda>ch. 48 \<le> (of_char ch :: nat) \<and> (of_char ch :: nat) \<le> 57) k
      then (let n = foldl (\<lambda>acc ch. acc * 10 + ((of_char ch :: nat) - 48)) 0 k
            in if showNat n = k \<and> n \<le> 4294967294 then Some n else None)
      else None)"

fun insertIndexed ::
  "nat \<Rightarrow> string \<Rightarrow> propval \<Rightarrow> (string \<times> propval) list \<Rightarrow> (string \<times> propval) list"
where
  "insertIndexed i k v [] = [(k, v)]"
| "insertIndexed i k v ((k', v') # rest) =
     (case arrayIndex k' of
        Some j \<Rightarrow>
          if j < i then (k', v') # insertIndexed i k v rest else (k, v) # (k', v') # rest
      | None \<Rightarrow> (k, v) # (k', v') # rest)"

definition createProperty ::
  "string \<Rightarrow> propval \<Rightarrow> (string \<times> propval) list \<Rightarrow> (string \<times> propval) list"
where
  "createProperty k v obj =
     (case arrayIndex k of Some i \<Rightarrow> insertIndexed i k v obj | None \<Rightarrow> obj @ [(k, v)])"

fun updateProperty ::
  "string \<Rightarrow> propval \<Rightarrow> (string \<times> propval) list \<Rightarrow> (string \<times> propval) list"
where
  "updateProperty k v [] = []"
| "updateProperty k v ((k', v') # rest) =
     (if k' = k then (k', v) # rest else (k', v') # updateProperty k v rest)"

section \<open>The aggregator (UserActivityService.processActivities)\<close>

text \<open>
  \<^verbatim>\<open>typeCounts[activity.type] = (typeCounts[activity.type] || 0) + 1\<close> on an object
  that starts as \<^verbatim>\<open>{}\<close>. An own count is incremented. A key that is not found
  at all reads as \<^verbatim>\<open>undefined\<close> and is created with the count 1. A key found on the
  prototype reads as a function, which is truthy, so that \<^verbatim>\<open>+ 1\<close> appends
  \<^verbatim>\<open>"1"\<close> to its string, and the write creates an own property holding that string;
  an own string grows by \<^verbatim>\<open>"1"\<close> each further time. For \<^verbatim>\<open>__proto__\<close> the
  write goes to the setter, which ignores the string: the object is left as it was.
\<close>

definition countType :: "string \<Rightarrow> (string \<times> propval) list \<Rightarrow> (string \<times> propval) list" where
  "countType k obj =
     (case map_of obj k of
        Some (Count n) \<Rightarrow> updateProperty k (Count ((if n = 0 then 0 else n) + 1)) obj
      | Some (Text s) \<Rightarrow>
          updateProperty k (if s = [] then Count (0 + 1) else Text (s @ ''1'')) obj
      | None \<Rightarrow>
          if k = ''__proto__'' then obj
          else (case map_of objectPrototype k of
                  Some source \<Rightarrow> createProperty k (Text (source @ ''1'')) obj
                | None \<Rightarrow> createProperty k (Count (0 + 1)) obj))"

text \<open>
  \<^verbatim>\<open>Math.max(...xs)\<close> on counts. It is only applied to the 24 hour buckets and the
  7 day buckets; for no arguments JavaScript gives \<open>-Infinity\<close>, which is below every
  count, as is the value 0 here for the purposes of \<^verbatim>\<open>indexOf\<close> on an empty array.
\<close>

fun Math_max :: "nat list \<Rightarrow> nat" where
  "Math_max [] = 0"
| "Math_max (x # xs) = max x (Math_max xs)"

text \<open>\<^verbatim>\<open>Array.prototype.indexOf\<close>: the first index holding the value, \<open>-1\<close> if none.\<close>

fun indexOf :: "nat list \<Rightarrow> nat \<Rightarrow> int" where
  "indexOf [] v = - 1"
| "indexOf (x # xs) v =
     (if x = v then 0
      else (let r = indexOf xs v in if r < 0 then - 1 else r + 1))"

text \<open>The mutable locals of \<^verbatim>\<open>processActivities\<close> that the loop updates.\<close>

record counters =
  totalDuration :: jsnumber
  hourCounts :: "nat list"
  dayCounts :: "nat list"
  typeCounts :: "(string \<times> propval) list"
  latestActivityDate :: int

definition initialCounters :: counters where
  "initialCounters =
     \<lparr>totalDuration = Fin 0, hourCounts = replicate 24 0, dayCounts = replicate 7 0,
      typeCounts = [], latestActivityDate = 0\<rparr>"

text \<open>
  The body of \<^verbatim>\<open>activities.forEach\<close>. A duration that is absent, 0 or NaN is falsy
  and is skipped. For an invalid date the comparison with the latest date is false and
  \<^verbatim>\<open>hourCounts[NaN]++\<close> touches none of the buckets.
\<close>

definition processActivity :: "host \<Rightarrow> counters \<Rightarrow> UserActivity \<Rightarrow> counters" where
  "processActivity c s activity =
     (let s1 = s\<lparr>typeCounts := countType (type activity) (typeCounts s)\<rparr>;
          s2 = (case durationSec activity of
                  None \<Rightarrow> s1
                | Some d \<Rightarrow>
                    if js_truthy d then s1\<lparr>totalDuration := js_add c (totalDuration s1) d\<rparr>
                    else s1)
      in case parseDate c (timestamp activity) of
           None \<Rightarrow> s2
         | Some activityDate \<Rightarrow>
             (let s3 = (if activityDate > latestActivityDate s2
                        then s2\<lparr>latestActivityDate := activityDate\<rparr> else s2);
                  h = getHours c activityDate;
                  d = getDay c activityDate
              in s3\<lparr>hourCounts := (hourCounts s3)[h := hourCounts s3 ! h + 1],
                    dayCounts := (dayCounts s3)[d := dayCounts s3 ! d + 1]\<rparr>))"

definition tally :: "host \<Rightarrow> UserActivity list \<Rightarrow> counters" where
  "tally c activities = foldl (processActivity c) initialCounters activities"

text \<open>
  \<^verbatim>\<open>calculateEngagementScore\<close>, operation by operation. The literal \<^verbatim>\<open>0.4\<close> is
  the double nearest to \<open>4/10\<close>; the other constants are doubles as they stand.
\<close>

definition calculateEngagementScore :: "host \<Rightarrow> EngagementMetrics \<Rightarrow> jsnumber" where
  "calculateEngagementScore c metrics =
     (let activityScore =
            js_mul c (Math_log c (js_add c (Fin (real (totalActivities metrics))) (Fin 1)))
              (Fin 10);
          recencyFactor =
            Math_max2 (Fin 0)
              (js_sub c (Fin 1) (js_div c (daysSinceLastActivity metrics) (Fin 30)));
          durationFactor = Math_min2 (Fin 1) (js_div c (averageDurationSec metrics) (Fin 300));
          activityTypes = length (activityByType metrics);
          diversityFactor = Math_min2 (Fin 1) (js_div c (Fin (real activityTypes)) (Fin 5));
          score =
            js_add c
              (js_add c
                 (js_add c (js_mul c activityScore (toDouble c (4 / 10)))
                    (js_mul c recencyFactor (Fin 30)))
                 (js_mul c durationFactor (Fin 15)))
              (js_mul c diversityFactor (Fin 15))
      in Math_min2 (Fin 100) (Math_max2 (Fin 0) (Math_round score)))"

definition processActivities :: "host \<Rightarrow> UserActivity list \<Rightarrow> EngagementMetrics" where
  "processActivities c activities =
     (let metrics = \<lparr>totalActivities = length activities, activityByType = [],
                      averageDurationSec = Fin 0, mostActiveHour = 0, mostActiveDay = 0,
                      daysSinceLastActivity = Fin 0, engagementScore = Fin 0\<rparr>
      in if length activities = 0 then metrics
         else
           (let s = tally c activities;
                m1 = metrics\<lparr>averageDurationSec :=
                       (if length activities > 0
                        then Math_round
                               (js_div c (totalDuration s) (Fin (real (length activities))))
                        else Fin 0)\<rparr>;
                m2 = m1\<lparr>mostActiveHour := indexOf (hourCounts s) (Math_max (hourCounts s)),
                        mostActiveDay := indexOf (dayCounts s) (Math_max (dayCounts s))\<rparr>;
                timeDiff = js_sub c (Fin (of_int (now c))) (Fin (of_int (latestActivityDate s)));
                m3 = m2\<lparr>daysSinceLastActivity :=
                       Math_floor (js_div c timeDiff (Fin (1000 * 60 * 60 * 24)))\<rparr>;
                m4 = m3\<lparr>activityByType := typeCounts s\<rparr>
            in m4\<lparr>engagementScore := calculateEngagementScore c m4\<rparr>))"

text \<open>
  For stating properties: the local hour and week day of a record (none for an invalid
  time stamp), the number of records falling in a given hour or on a given day, and the
  names a plain object inherits.
\<close>

definition hourOf :: "host \<Rightarrow> UserActivity \<Rightarrow> nat option" where
  "hourOf c a = map_option (getHours c) (parseDate c (timestamp a))"

definition dayOf :: "host \<Rightarrow> UserActivity \<Rightarrow> nat option" where
  "dayOf c a = map_option (getDay c) (parseDate c (timestamp a))"

definition recordsInHour :: "host \<Rightarrow> UserActivity list \<Rightarrow> nat \<Rightarrow> nat" where
  "recordsInHour c activities h = length (filter (\<lambda>a. hourOf c a = Some h) activities)"

definition recordsOnDay :: "host \<Rightarrow> UserActivity list \<Rightarrow> nat \<Rightarrow> nat" where
  "recordsOnDay c activities d = length (filter (\<lambda>a. dayOf c a = Some d) activities)"

definition inheritedNames :: "string list" where
  "inheritedNames = ''__proto__'' # map fst objectPrototype"

text \<open>
  Data of the repository's test suite (\<^verbatim>\<open>mockActivities\<close>), read in UTC at noon of
  the day of the records by a host whose arithmetic rounds nothing and whose logarithm
  is exact; a record whose kind is not a member of the enumeration; records whose kind
  is a name found on the prototype; and two records whose durations are the two
  infinities (\<^verbatim>\<open>"durationSec": 1e999\<close> and \<^verbatim>\<open>"durationSec": -1e999\<close> in the JSON
  of the source).
\<close>

definition exactLog :: "jsnumber \<Rightarrow> jsnumber" where
  "exactLog x =
     (case x of
        Fin a \<Rightarrow> if 0 < a then Fin (ln a) else if a = 0 then NegInfinity else NaN
      | Infinity \<Rightarrow> Infinity
      | _ \<Rightarrow> NaN)"

definition testClock :: host where
  "testClock =
     \<lparr>now = 1682942400000,
      parseDate = map_of [(''2023-05-01T10:00:00Z'', 1682935200000),
                          (''2023-05-01T10:05:00Z'', 1682935500000),
                          (''2023-05-01T11:00:00Z'', 1682938800000)],
      localTZA = (\<lambda>t. 0),
      toDouble = Fin,
      Math_log = exactLog\<rparr>"

definition mockActivities :: "UserActivity list" where
  "mockActivities =
     [\<lparr>id' = ''activity1'', userId = ''user123'', type = ''PAGE_VIEW'',
       timestamp = ''2023-05-01T10:00:00Z'', path = ''/products'',
       device = Some ''desktop'', durationSec = None, metadata = None\<rparr>,
      \<lparr>id' = ''activity2'', userId = ''user123'', type = ''CLICK'',
       timestamp = ''2023-05-01T10:05:00Z'', path = ''/products/123'',
       device = Some ''desktop'', durationSec = None, metadata = None\<rparr>,
      \<lparr>id' = ''activity3'', userId = ''user123'', type = ''VIDEO_PLAY'',
       timestamp = ''2023-05-01T11:00:00Z'', path = ''/products/123/video'',
       device = Some ''desktop'', durationSec = Some (Fin 120), metadata = None\<rparr>]"

definition unknownKindActivity :: UserActivity where
  "unknownKindActivity =
     \<lparr>id' = ''activity9'', userId = ''user123'', type = ''LOGIN'',
      timestamp = ''2023-05-01T10:00:00Z'', path = ''/login'',
      device = None, durationSec = None, metadata = None\<rparr>"

definition kindActivity :: "string \<Rightarrow> UserActivity" where
  "kindActivity k = unknownKindActivity\<lparr>type := k\<rparr>"

definition infiniteDurations :: "UserActivity list" where
  "infiniteDurations =
     [\<lparr>id' = ''activity1'', userId = ''user123'', type = ''VIDEO_PLAY'',
       timestamp = ''2023-05-01T10:00:00Z'', path = ''/video'',
       device = None, durationSec = Some Infinity, metadata = None\<rparr>,
      \<lparr>id' = ''activity2'', userId = ''user123'', type = ''VIDEO_PLAY'',
       timestamp = ''2023-05-01T10:05:00Z'', path = ''/video'',
       device = None, durationSec = Some NegInfinity, metadata = None\<rparr>]"

section \<open>Cache keys (UserActivityService.generateCacheKey)\<close>

text \<open>
  A filter is a JavaScript object: the list of its entries in the order
  \<^verbatim>\<open>Object.entries\<close> yields them, \<open>None\<close> when no filter is passed. The values the
  service's own filters hold are strings, numbers (integers here) and \<^verbatim>\<open>undefined\<close>.
\<close>

datatype jsval = Undefined | Str string | Num int

text \<open>
  The template literal \<^verbatim>\<open>${value}\<close>. A number stands here for an integer below
  \<open>10^21\<close> in magnitude, which prints in decimal.
\<close>

fun toString :: "jsval \<Rightarrow> string" where
  "toString Undefined = ''undefined''"
| "toString (Str s) = s"
| "toString (Num n) = showInt n"

text \<open>\<^verbatim>\<open>Array.prototype.join\<close> on strings.\<close>

fun join :: "string \<Rightarrow> string list \<Rightarrow> string" where
  "join sep [] = []"
| "join sep [x] = x"
| "join sep (x # y # ys) = x @ sep @ join sep (y # ys)"

text \<open>
  \<^verbatim>\<open>Buffer.from(s).toString('base64')\<close>: three bytes give four characters of the
  standard alphabet, the last group is padded with \<open>=\<close>.
\<close>

definition base64Alphabet :: string where
  "base64Alphabet = ''ABCDEFGHIJKLMNOPQRSTUVWXYZabcdefghijklmnopqrstuvwxyz0123456789+/''"

definition sextet :: "nat \<Rightarrow> char" where
  "sextet n = base64Alphabet ! (n mod 64)"

fun base64 :: "string \<Rightarrow> string" where
  "base64 (a # b # c # rest) =
     (let n = of_char a * 65536 + of_char b * 256 + of_char c
      in sextet (n div 262144) # sextet (n div 4096) # sextet (n div 64) # sextet n
           # base64 rest)"
| "base64 [a, b] =
     (let n = of_char a * 65536 + of_char b * 256
      in [sextet (n div 262144), sextet (n div 4096), sextet (n div 64), CHR ''=''])"
| "base64 [a] =
     (let n = of_char a * 65536
      in [sextet (n div 262144), sextet (n div 4096), CHR ''='', CHR ''=''])"
| "base64 [] = []"

text \<open>
  \<^verbatim>\<open>Array.prototype.sort\<close> with a comparison function: a stable sort, here by
  insertion, an element going before the first one it compares below.
\<close>

fun insertEntry :: "('a \<Rightarrow> 'a \<Rightarrow> int) \<Rightarrow> 'a \<Rightarrow> 'a list \<Rightarrow> 'a list" where
  "insertEntry compareFn x [] = [x]"
| "insertEntry compareFn x (y # ys) =
     (if compareFn x y < 0 then x # y # ys else y # insertEntry compareFn x ys)"

definition sortWith :: "('a \<Rightarrow> 'a \<Rightarrow> int) \<Rightarrow> 'a list \<Rightarrow> 'a list" where
  "sortWith compareFn xs = foldl (\<lambda>acc x. insertEntry compareFn x acc) [] xs"

text \<open>
  \<^verbatim>\<open>String.prototype.localeCompare\<close> depends on the collation of the host and is a
  parameter of the model.
\<close>

definition generateCacheKey ::
  "(string \<Rightarrow> string \<Rightarrow> int) \<Rightarrow> string \<Rightarrow> string \<Rightarrow> (string \<times> jsval) list option \<Rightarrow> string"
where
  "generateCacheKey localeCompare prefix uid filter' =
     (let key = ''user-activity:'' @ uid @ '':'' @ prefix
      in case filter' of
           None \<Rightarrow> key
         | Some entries \<Rightarrow>
             if length entries > 0 then
               (let sortedEntries =
                      sortWith (\<lambda>(keyA, _) (keyB, _). localeCompare keyA keyB)
                        (filter (\<lambda>(_, v). v \<noteq> Undefined) entries)
                in if length sortedEntries > 0 then
                     (let filterString =
                            join ''&'' (map (\<lambda>(k, v). k @ ''='' @ toString v) sortedEntries)
                      in key @ '':'' @ base64 filterString)
                   else key)
             else key)"

text \<open>
  A comparator for concrete evaluations: the order of the code units, with which the
  collation agrees on the lower-case field names of the service's filters.
\<close>

fun codeUnitCompare :: "string \<Rightarrow> string \<Rightarrow> int" where
  "codeUnitCompare [] [] = 0"
| "codeUnitCompare [] (y # ys) = - 1"
| "codeUnitCompare (x # xs) [] = 1"
| "codeUnitCompare (x # xs) (y # ys) =
     (if (of_char x :: nat) < of_char y then - 1
      else if (of_char y :: nat) < of_char x then 1
      else codeUnitCompare xs ys)"


text \<open>
  For stating properties: the comparison function handed to \<^verbatim>\<open>sort\<close>, and what
  a permutation-independent result needs of \<^verbatim>\<open>localeCompare\<close> on the field names
  at hand, namely that it is antisymmetric, transitive and 0 only between equal names.
\<close>

definition entryCompare :: "(string \<Rightarrow> string \<Rightarrow> int) \<Rightarrow> string \<times> jsval \<Rightarrow> string \<times> jsval \<Rightarrow> int" where
  "entryCompare localeCompare = (\<lambda>(keyA, _) (keyB, _). localeCompare keyA keyB)"

definition consistentComparator :: "(string \<Rightarrow> string \<Rightarrow> int) \<Rightarrow> string list \<Rightarrow> bool" where
  "consistentComparator cmp names \<longleftrightarrow>
     (\<forall>a\<in>set names. \<forall>b\<in>set names.
        (cmp a b < 0 \<longleftrightarrow> 0 < cmp b a) \<and> (cmp a b = 0 \<longrightarrow> a = b)) \<and>
     (\<forall>a\<in>set names. \<forall>b\<in>set names. \<forall>c\<in>set names.
        cmp a b < 0 \<longrightarrow> cmp b c < 0 \<longrightarrow> cmp a c < 0)"

text \<open>A comparator is a strict order on a set of elements.\<close>

definition strictOn :: "('a \<Rightarrow> 'a \<Rightarrow> int) \<Rightarrow> 'a set \<Rightarrow> bool" where
  "strictOn f A \<longleftrightarrow>
     (\<forall>a\<in>A. \<forall>b\<in>A. (f a b < 0 \<longrightarrow> \<not> f b a < 0) \<and> (a \<noteq> b \<longrightarrow> f a b < 0 \<or> f b a < 0)) \<and>
     (\<forall>a\<in>A. \<forall>b\<in>A. \<forall>c\<in>A. f a b < 0 \<longrightarrow> f b c < 0 \<longrightarrow> f a c < 0)"

text \<open>The filter of the test suite with two more fields, in two insertion orders.\<close>

definition filterA :: "(string \<times> jsval) list" where
  "filterA = [(''startDate'', Str ''2023-05-01T00:00:00Z''), (''type'', Str ''PAGE_VIEW''),
              (''path'', Undefined), (''limit'', Num 100)]"

definition filterB :: "(string \<times> jsval) list" where
  "filterB = [(''limit'', Num 100), (''path'', Undefined), (''type'', Str ''PAGE_VIEW''),
              (''startDate'', Str ''2023-05-01T00:00:00Z'')]"

section \<open>The service (UserActivityService)\<close>

text \<open>
  A value that is thrown or rejects a promise: an axios error (status, status text and
  URL, each possibly missing, and the message), an \<^verbatim>\<open>Error\<close> with its message, or
  any other value, by its string.
\<close>

datatype failure =
    AxiosError "int option" "string option" "string option" string
  | JsError string
  | Thrown string

datatype level = Debug | Info | Warn | Err

datatype logval =
    LStr string
  | LNum int
  | LUndefined
  | LFailure failure
  | LFilter "(string \<times> jsval) list option"

text \<open>
  The calls the service makes on its collaborators, in the order it makes them: the
  cache client (\<^verbatim>\<open>get\<close>, \<^verbatim>\<open>setex\<close>), the HTTP client (\<^verbatim>\<open>get\<close> with the
  endpoint, the query parameters and the timeout) and the logger.
\<close>

datatype event =
    CacheGet string
  | CacheSetex string int string
  | HttpGet string "(string \<times> jsval) list option" int
  | Log level string "(string \<times> logval) list"

text \<open>
  The state outside the service: the content of the cache store (key to time-to-live and
  payload) and the trace of calls so far.
\<close>

record world =
  cache :: "string \<Rightarrow> (int \<times> string) option"
  trace :: "event list"

text \<open>
  \<^verbatim>\<open>JSON.parse(cachedData) as T\<close> throws, or gives a falsy value (\<^verbatim>\<open>null\<close>,
  \<^verbatim>\<open>false\<close>, \<^verbatim>\<open>0\<close>, the empty string), which the callers treat as no data, or a
  value taken to be of type \<^verbatim>\<open>T\<close> without a check.
\<close>

datatype 'a parsed = Throws failure | Falsy | Value 'a

text \<open>
  The service instance: its two configurations and the behaviour of what it is built on.
  The cache client may reject a \<^verbatim>\<open>get\<close> or a \<^verbatim>\<open>setex\<close> on a key; the HTTP
  client answers a request with the records or rejects; \<^verbatim>\<open>JSON\<close>, \<^verbatim>\<open>Date\<close> and
  the collation belong to the language. \<^verbatim>\<open>startDateISO n\<close> is the ISO string of the
  current date moved back by \<open>n\<close> days (\<^verbatim>\<open>setDate(getDate() - n)\<close>, \<^verbatim>\<open>toISOString()\<close>).
\<close>

record service =
  apiConfig :: ApiConfig
  cacheConfig :: CacheConfig
  dates :: host
  localeCompareFn :: "string \<Rightarrow> string \<Rightarrow> int"
  cacheGetError :: "string \<Rightarrow> failure option"
  cacheSetexError :: "string \<Rightarrow> failure option"
  httpResponse :: "string \<Rightarrow> (string \<times> jsval) list option \<Rightarrow> failure + UserActivity list"
  parseActivities :: "string \<Rightarrow> UserActivity list parsed"
  parseMetrics :: "string \<Rightarrow> EngagementMetrics parsed"
  stringifyActivities :: "UserActivity list \<Rightarrow> string"
  stringifyMetrics :: "EngagementMetrics \<Rightarrow> string"
  startDateISO :: "int \<Rightarrow> string"

definition logger :: "level \<Rightarrow> string \<Rightarrow> (string \<times> logval) list \<Rightarrow> world \<Rightarrow> world" where
  "logger lvl message ctx w = w\<lparr>trace := trace w @ [Log lvl message ctx]\<rparr>"

text \<open>
  \<^verbatim>\<open>getFromCache\<close>: the body of the \<^verbatim>\<open>try\<close> block, whose result is a failure
  (\<open>Inl\<close>) when the store or the parser throws, and the function with its \<^verbatim>\<open>catch\<close>.
  \<open>None\<close> is \<^verbatim>\<open>null\<close>.
\<close>

definition getFromCache_try ::
  "service \<Rightarrow> (string \<Rightarrow> 'a parsed) \<Rightarrow> world \<Rightarrow> string \<Rightarrow> world \<times> (failure + 'a option)"
where
  "getFromCache_try sv parse w key =
     (let w1 = w\<lparr>trace := trace w @ [CacheGet key]\<rparr>
      in case cacheGetError sv key of
           Some err \<Rightarrow> (w1, Inl err)
         | None \<Rightarrow>
             (case cache w1 key of
                None \<Rightarrow> (w1, Inr None)
              | Some (ttl, cachedData) \<Rightarrow>
                  if cachedData = [] then (w1, Inr None)
                  else (case parse cachedData of
                          Throws err \<Rightarrow> (w1, Inl err)
                        | Falsy \<Rightarrow> (w1, Inr None)
                        | Value v \<Rightarrow> (w1, Inr (Some v)))))"

definition getFromCache ::
  "service \<Rightarrow> (string \<Rightarrow> 'a parsed) \<Rightarrow> world \<Rightarrow> string \<Rightarrow> world \<times> 'a option"
where
  "getFromCache sv parse w key =
     (case getFromCache_try sv parse w key of
        (w1, Inl err) \<Rightarrow>
          (logger Warn ''Cache retrieval failed, falling back to API''
             [(''key'', LStr key), (''error'', LFailure err)] w1, None)
      | (w1, Inr r) \<Rightarrow> (w1, r))"

text \<open>\<^verbatim>\<open>setInCache\<close>, likewise: a rejected \<^verbatim>\<open>setex\<close> leaves the store as it was.\<close>

definition setInCache_try ::
  "service \<Rightarrow> world \<Rightarrow> string \<Rightarrow> string \<Rightarrow> int \<Rightarrow> world \<times> (failure + unit)"
where
  "setInCache_try sv w key serializedData ttlSeconds =
     (let w1 = w\<lparr>trace := trace w @ [CacheSetex key ttlSeconds serializedData]\<rparr>
      in case cacheSetexError sv key of
           Some err \<Rightarrow> (w1, Inl err)
         | None \<Rightarrow> (w1\<lparr>cache := (cache w1)(key \<mapsto> (ttlSeconds, serializedData))\<rparr>, Inr ()))"

definition setInCache ::
  "service \<Rightarrow> ('a \<Rightarrow> string) \<Rightarrow> world \<Rightarrow> string \<Rightarrow> 'a \<Rightarrow> int \<Rightarrow> world"
where
  "setInCache sv stringify w key data ttlSeconds =
     (case setInCache_try sv w key (stringify data) ttlSeconds of
        (w1, Inl err) \<Rightarrow>
          logger Warn ''Failed to cache data'' [(''key'', LStr key), (''error'', LFailure err)] w1
      | (w1, Inr _) \<Rightarrow> w1)"

definition optNum :: "int option \<Rightarrow> logval" where
  "optNum n = (case n of None \<Rightarrow> LUndefined | Some i \<Rightarrow> LNum i)"

definition optStr :: "string option \<Rightarrow> logval" where
  "optStr s = (case s of None \<Rightarrow> LUndefined | Some t \<Rightarrow> LStr t)"

definition handleError :: "string \<Rightarrow> failure \<Rightarrow> (string \<times> logval) list \<Rightarrow> world \<Rightarrow> world" where
  "handleError message err ctx w =
     (case err of
        AxiosError status statusText url msg \<Rightarrow>
          logger Err message
            (ctx @ [(''status'', optNum status), (''statusText'', optStr statusText),
                    (''url'', optStr url), (''error'', LStr msg)]) w
      | JsError msg \<Rightarrow> logger Err message (ctx @ [(''error'', LStr msg)]) w
      | Thrown s \<Rightarrow> logger Err message (ctx @ [(''error'', LStr s)]) w)"

definition getUserActivity_try ::
  "service \<Rightarrow> world \<Rightarrow> string \<Rightarrow> (string \<times> jsval) list option
     \<Rightarrow> world \<times> (failure + UserActivity list)"
where
  "getUserActivity_try sv w uid filter' =
     (let cacheKey = generateCacheKey (localeCompareFn sv) ''activity'' uid filter';
          (w1, cachedData) = getFromCache sv (parseActivities sv) w cacheKey
      in case cachedData of
           Some cached \<Rightarrow>
             (logger Debug ''Retrieved user activity from cache'' [(''userId'', LStr uid)] w1,
              Inr cached)
         | None \<Rightarrow>
             (let endpoint = basePath (apiConfig sv) @ ''/users/'' @ uid @ ''/activity'';
                  w2 = logger Debug ''Fetching user activity from API''
                         [(''userId'', LStr uid), (''filter'', LFilter filter')] w1;
                  w3 = w2\<lparr>trace := trace w2 @
                          [HttpGet endpoint filter' (timeoutMs (apiConfig sv))]\<rparr>
              in case httpResponse sv endpoint filter' of
                   Inl err \<Rightarrow> (w3, Inl err)
                 | Inr activities \<Rightarrow>
                     (setInCache sv (stringifyActivities sv) w3 cacheKey activities
                        (activityTtlSec (cacheConfig sv)),
                      Inr activities)))"

definition getUserActivity ::
  "service \<Rightarrow> world \<Rightarrow> string \<Rightarrow> (string \<times> jsval) list option
     \<Rightarrow> world \<times> (failure + UserActivity list)"
where
  "getUserActivity sv w uid filter' =
     (case getUserActivity_try sv w uid filter' of
        (w1, Inl err) \<Rightarrow>
          (handleError ''Failed to fetch user activity'' err [(''userId'', LStr uid)] w1,
           Inl err)
      | (w1, Inr activities) \<Rightarrow> (w1, Inr activities))"

text \<open>
  \<^verbatim>\<open>calculateEngagementMetrics\<close>. The time range is an integer or absent; the key is
  derived from the object \<^verbatim>\<open>{ timeRangeInDays }\<close>. \<open>createFilter\<close> is the block
  "Create filter based on time range": the filter of the fetch starts empty and receives
  a start date when \<^verbatim>\<open>timeRangeInDays\<close> is truthy.
\<close>

definition createFilter :: "service \<Rightarrow> int option \<Rightarrow> (string \<times> jsval) list" where
  "createFilter sv timeRangeInDays =
     (case timeRangeInDays of
        None \<Rightarrow> []
      | Some n \<Rightarrow> if n = 0 then [] else [(''startDate'', Str (startDateISO sv n))])"

definition calculateEngagementMetrics_try ::
  "service \<Rightarrow> world \<Rightarrow> string \<Rightarrow> int option \<Rightarrow> world \<times> (failure + EngagementMetrics)"
where
  "calculateEngagementMetrics_try sv w uid timeRangeInDays =
     (let cacheKey = generateCacheKey (localeCompareFn sv) ''metrics'' uid
            (Some [(''timeRangeInDays'',
                    case timeRangeInDays of None \<Rightarrow> Undefined | Some n \<Rightarrow> Num n)]);
          (w1, cachedMetrics) = getFromCache sv (parseMetrics sv) w cacheKey
      in case cachedMetrics of
           Some cached \<Rightarrow>
             (logger Debug ''Retrieved engagement metrics from cache''
                [(''userId'', LStr uid)] w1,
              Inr cached)
         | None \<Rightarrow>
             (let filter' = createFilter sv timeRangeInDays;
                  (w2, fetched) = getUserActivity sv w1 uid (Some filter')
              in case fetched of
                   Inl err \<Rightarrow> (w2, Inl err)
                 | Inr activities \<Rightarrow>
                     (let metrics = processActivities (dates sv) activities
                      in (setInCache sv (stringifyMetrics sv) w2 cacheKey metrics
                            (metricsTtlSec (cacheConfig sv)),
                          Inr metrics))))"

definition calculateEngagementMetrics ::
  "service \<Rightarrow> world \<Rightarrow> string \<Rightarrow> int option \<Rightarrow> world \<times> (failure + EngagementMetrics)"
where
  "calculateEngagementMetrics sv w uid timeRangeInDays =
     (case calculateEngagementMetrics_try sv w uid timeRangeInDays of
        (w1, Inl err) \<Rightarrow>
          (handleError ''Failed to calculate engagement metrics'' err
             [(''userId'', LStr uid)] w1,
           Inl err)
      | (w1, Inr metrics) \<Rightarrow> (w1, Inr metrics))"

text \<open>
  \<^verbatim>\<open>bulkProcessUserMetrics\<close>. \<^verbatim>\<open>[...new Set(userIds)]\<close> keeps the first occurrence
  of each id, in order. \<^verbatim>\<open>Promise.allSettled\<close> collects, for each id, a fulfilled
  value (the id with its metrics) or a rejection reason; the per-subject calls are run
  here one after the other, in the order they are started. The result is a
  \<^verbatim>\<open>Map\<close>: an association list with one entry per key, in insertion order.
\<close>

definition uniqueUserIds :: "string list \<Rightarrow> string list" where
  "uniqueUserIds userIds = foldl (\<lambda>acc u. if u \<in> set acc then acc else acc @ [u]) [] userIds"

fun allSettled ::
  "service \<Rightarrow> world \<Rightarrow> string list \<Rightarrow> int option
     \<Rightarrow> world \<times> (failure + string \<times> EngagementMetrics) list"
where
  "allSettled sv w [] timeRangeInDays = (w, [])"
| "allSettled sv w (uid # rest) timeRangeInDays =
     (let (w1, r) = calculateEngagementMetrics sv w uid timeRangeInDays;
          (w2, rs) = allSettled sv w1 rest timeRangeInDays
      in (w2, (case r of Inl reason \<Rightarrow> Inl reason | Inr metrics \<Rightarrow> Inr (uid, metrics)) # rs))"

fun Map_set :: "string \<Rightarrow> 'v \<Rightarrow> (string \<times> 'v) list \<Rightarrow> (string \<times> 'v) list" where
  "Map_set k v [] = [(k, v)]"
| "Map_set k v ((k', v') # rest) =
     (if k' = k then (k', v) # rest else (k', v') # Map_set k v rest)"

definition collectResult ::
  "nat \<Rightarrow> world \<times> (string \<times> EngagementMetrics) list \<Rightarrow> failure + string \<times> EngagementMetrics
     \<Rightarrow> world \<times> (string \<times> EngagementMetrics) list"
where
  "collectResult userIdsCount acc result =
     (case acc of (w, metricsMap) \<Rightarrow>
        (case result of
           Inr (uid, metrics) \<Rightarrow> (w, Map_set uid metrics metricsMap)
         | Inl reason \<Rightarrow>
             (logger Err ''Failed to process user metrics''
                [(''error'', LFailure reason), (''userIdsCount'', LNum (int userIdsCount))] w,
              metricsMap)))"

definition bulkProcessUserMetrics ::
  "service \<Rightarrow> world \<Rightarrow> string list \<Rightarrow> int option
     \<Rightarrow> world \<times> (string \<times> EngagementMetrics) list"
where
  "bulkProcessUserMetrics sv w userIds timeRangeInDays =
     (let ids = uniqueUserIds userIds;
          (w1, results) = allSettled sv w ids timeRangeInDays;
          (w2, metricsMap) = foldl (collectResult (length ids)) (w1, []) results;
          w3 = logger Info ''Bulk processed user metrics''
                 [(''requested'', LNum (int (length ids))),
                  (''processed'', LNum (int (length metricsMap)))] w2
      in (w3, metricsMap))"

text \<open>
  For stating properties: the HTTP requests among the calls made so far, the calls a
  run has added, the two keys and the endpoint the service derives, the results the
  operations have when nothing is cached (the answer of the source, and the metrics
  aggregated from it), and the outcome of each subject of a bulk call, in order.
\<close>

fun isHttpGet :: "event \<Rightarrow> bool" where
  "isHttpGet (HttpGet _ _ _) = True"
| "isHttpGet _ = False"

definition httpCalls :: "world \<Rightarrow> event list" where
  "httpCalls w = filter isHttpGet (trace w)"

definition newEvents :: "world \<Rightarrow> world \<Rightarrow> event list" where
  "newEvents w w' = drop (length (trace w)) (trace w')"

definition activityKey :: "service \<Rightarrow> string \<Rightarrow> (string \<times> jsval) list option \<Rightarrow> string" where
  "activityKey sv uid filter' = generateCacheKey (localeCompareFn sv) ''activity'' uid filter'"

definition metricsKey :: "service \<Rightarrow> string \<Rightarrow> int option \<Rightarrow> string" where
  "metricsKey sv uid timeRangeInDays =
     generateCacheKey (localeCompareFn sv) ''metrics'' uid
       (Some [(''timeRangeInDays'',
               case timeRangeInDays of None \<Rightarrow> Undefined | Some n \<Rightarrow> Num n)])"

definition activityEndpoint :: "service \<Rightarrow> string \<Rightarrow> string" where
  "activityEndpoint sv uid = basePath (apiConfig sv) @ ''/users/'' @ uid @ ''/activity''"

definition fetchUncached ::
  "service \<Rightarrow> string \<Rightarrow> (string \<times> jsval) list option \<Rightarrow> failure + UserActivity list"
where
  "fetchUncached sv uid filter' = httpResponse sv (activityEndpoint sv uid) filter'"

definition metricsUncached ::
  "service \<Rightarrow> string \<Rightarrow> int option \<Rightarrow> failure + EngagementMetrics"
where
  "metricsUncached sv uid timeRangeInDays =
     (case fetchUncached sv uid (Some (createFilter sv timeRangeInDays)) of
        Inl err \<Rightarrow> Inl err
      | Inr activities \<Rightarrow> Inr (processActivities (dates sv) activities))"

fun subjectOutcomes ::
  "service \<Rightarrow> world \<Rightarrow> string list \<Rightarrow> int option
     \<Rightarrow> (string \<times> (failure + EngagementMetrics)) list"
where
  "subjectOutcomes sv w [] timeRangeInDays = []"
| "subjectOutcomes sv w (uid # rest) timeRangeInDays =
     (uid, snd (calculateEngagementMetrics sv w uid timeRangeInDays))
       # subjectOutcomes sv (fst (calculateEngagementMetrics sv w uid timeRangeInDays)) rest
           timeRangeInDays"

text \<open>The settled result of a subject with a given outcome.\<close>

definition settled ::
  "string \<times> (failure + EngagementMetrics) \<Rightarrow> failure + string \<times> EngagementMetrics"
where
  "settled p = (case snd p of Inl reason \<Rightarrow> Inl reason | Inr metrics \<Rightarrow> Inr (fst p, metrics))"

text \<open>
  Test doubles after the repository's test suite: a source that knows one user, a cache
  that is empty or holds that user's records, and a cache client that rejects every call.
\<close>

definition testService :: service where
  "testService =
     \<lparr>apiConfig = \<lparr>basePath = ''https://api.test.com'', timeoutMs = 1000, apiKey = None\<rparr>,
      cacheConfig = \<lparr>activityTtlSec = 60, metricsTtlSec = 300\<rparr>,
      dates = testClock,
      localeCompareFn = codeUnitCompare,
      cacheGetError = (\<lambda>k. None),
      cacheSetexError = (\<lambda>k. None),
      httpResponse = (\<lambda>endpoint params.
         if endpoint = ''https://api.test.com/users/user123/activity'' then Inr mockActivities
         else Inl (AxiosError (Some 404) (Some ''Not Found'') (Some endpoint)
                     ''Request failed with status code 404'')),
      parseActivities = (\<lambda>s.
         if s = ''[mockActivities]'' then Value mockActivities
         else if s = ''[]'' then Value []
         else Throws (JsError ''Unexpected token'')),
      parseMetrics = (\<lambda>s. Throws (JsError ''Unexpected token'')),
      stringifyActivities = (\<lambda>xs. if xs = mockActivities then ''[mockActivities]'' else ''[]''),
      stringifyMetrics = (\<lambda>m. ''{metrics}''),
      startDateISO = (\<lambda>n. ''2023-04-01T12:00:00.000Z'')\<rparr>"

definition failingCacheService :: service where
  "failingCacheService =
     testService\<lparr>cacheGetError := (\<lambda>k. Some (JsError ''ECONNREFUSED'')),
                  cacheSetexError := (\<lambda>k. Some (JsError ''ECONNREFUSED''))\<rparr>"

definition coldWorld :: world where
  "coldWorld = \<lparr>cache = (\<lambda>k. None), trace = []\<rparr>"

definition warmWorld :: world where
  "warmWorld =
     \<lparr>cache = (\<lambda>k. None)(''user-activity:user123:activity'' \<mapsto> (60, ''[mockActivities]'')),
      trace = []\<rparr>"

section \<open>Properties of the aggregator\<close>

text \<open>
  C8. Aggregating the empty record list returns the all-zero snapshot: total count 0,
  no per-kind counts, average duration 0, most active hour 0, most active day 0, days
  since the last activity 0 and engagement score 0. The function is total, so no error
  is possible.
\<close>

theorem processActivities_empty:
  "processActivities c [] =
     \<lparr>totalActivities = 0, activityByType = [], averageDurationSec = Fin 0,
      mostActiveHour = 0, mostActiveDay = 0, daysSinceLastActivity = Fin 0,
      engagementScore = Fin 0\<rparr>"
  by (simp add: processActivities_def)

lemma getHours_less: "getHours c t < 24"
  by (simp add: getHours_def nat_less_iff)

lemma getDay_less: "getDay c t < 7"
  by (simp add: getDay_def nat_less_iff)

lemma Math_max_upper: "x \<in> set xs \<Longrightarrow> x \<le> Math_max xs"
  by (induction xs) auto

lemma Math_max_mem: "xs \<noteq> [] \<Longrightarrow> Math_max xs \<in> set xs"
  by (induction xs rule: list_nonempty_induct) (auto simp: max_def)

lemma indexOf_first:
  "v \<in> set xs \<Longrightarrow>
     \<exists>i<length xs. indexOf xs v = int i \<and> xs ! i = v \<and> (\<forall>j<i. xs ! j \<noteq> v)"
proof (induction xs)
  case Nil
  then show ?case by simp
next
  case (Cons x xs)
  show ?case
  proof (cases "x = v")
    case True
    then show ?thesis by (intro exI[of _ 0]) simp
  next
    case False
    with Cons.prems have "v \<in> set xs" by simp
    from Cons.IH[OF this] obtain i where i: "i < length xs" "indexOf xs v = int i"
      "xs ! i = v" "\<forall>j<i. xs ! j \<noteq> v" by blast
    have "\<forall>j<Suc i. (x # xs) ! j \<noteq> v"
      using False i(4) by (auto simp: nth_Cons split: nat.splits)
    with i False show ?thesis
      by (intro exI[of _ "Suc i"]) (simp add: Let_def)
  qed
qed

lemma hourCounts_step:
  "hourCounts (processActivity c s a) =
     (case hourOf c a of None \<Rightarrow> hourCounts s
      | Some h \<Rightarrow> (hourCounts s)[h := hourCounts s ! h + 1])"
  by (simp add: processActivity_def hourOf_def Let_def split: option.splits)

lemma dayCounts_step:
  "dayCounts (processActivity c s a) =
     (case dayOf c a of None \<Rightarrow> dayCounts s
      | Some d \<Rightarrow> (dayCounts s)[d := dayCounts s ! d + 1])"
  by (simp add: processActivity_def dayOf_def Let_def split: option.splits)

lemma typeCounts_step:
  "typeCounts (processActivity c s a) = countType (type a) (typeCounts s)"
  by (simp add: processActivity_def Let_def split: option.splits)

lemma hourCounts_foldl:
  "length (hourCounts (foldl (processActivity c) s as)) = length (hourCounts s) \<and>
   (\<forall>h<length (hourCounts s).
      hourCounts (foldl (processActivity c) s as) ! h = hourCounts s ! h + recordsInHour c as h)"
proof (induction as arbitrary: s)
  case Nil
  then show ?case by (simp add: recordsInHour_def)
next
  case (Cons a as)
  have len: "length (hourCounts (processActivity c s a)) = length (hourCounts s)"
    by (simp add: hourCounts_step split: option.splits)
  have step: "hourCounts (processActivity c s a) ! h =
      hourCounts s ! h + (if hourOf c a = Some h then 1 else 0)"
    if "h < length (hourCounts s)" for h
    using that by (auto simp: hourCounts_step nth_list_update split: option.splits)
  show ?case
    using Cons.IH[of "processActivity c s a"] 
    by (auto simp: len step recordsInHour_def)
qed

lemma dayCounts_foldl:
  "length (dayCounts (foldl (processActivity c) s as)) = length (dayCounts s) \<and>
   (\<forall>d<length (dayCounts s).
      dayCounts (foldl (processActivity c) s as) ! d = dayCounts s ! d + recordsOnDay c as d)"
proof (induction as arbitrary: s)
  case Nil
  then show ?case by (simp add: recordsOnDay_def)
next
  case (Cons a as)
  have len: "length (dayCounts (processActivity c s a)) = length (dayCounts s)"
    by (simp add: dayCounts_step split: option.splits)
  have step: "dayCounts (processActivity c s a) ! d =
      dayCounts s ! d + (if dayOf c a = Some d then 1 else 0)"
    if "d < length (dayCounts s)" for d
    using that by (auto simp: dayCounts_step nth_list_update split: option.splits)
  show ?case
    using Cons.IH[of "processActivity c s a"] 
    by (auto simp: len step recordsOnDay_def)
qed

lemma hourCounts_tally:
  "length (hourCounts (tally c as)) = 24"
  "h < 24 \<Longrightarrow> hourCounts (tally c as) ! h = recordsInHour c as h"
  using hourCounts_foldl[of c initialCounters as]
  by (simp_all add: tally_def initialCounters_def)

lemma dayCounts_tally:
  "length (dayCounts (tally c as)) = 7"
  "d < 7 \<Longrightarrow> dayCounts (tally c as) ! d = recordsOnDay c as d"
  using dayCounts_foldl[of c initialCounters as]
  by (simp_all add: tally_def initialCounters_def)

lemma first_maximum:
  assumes "xs \<noteq> []"
  shows "\<exists>i<length xs. indexOf xs (Math_max xs) = int i \<and>
           (\<forall>j<length xs. xs ! j \<le> xs ! i) \<and> (\<forall>j<i. xs ! j < xs ! i)"
proof -
  from indexOf_first[OF Math_max_mem[OF assms]]
  obtain i where i: "i < length xs" "indexOf xs (Math_max xs) = int i"
    "xs ! i = Math_max xs" "\<forall>j<i. xs ! j \<noteq> Math_max xs" by blast
  have le: "xs ! j \<le> Math_max xs" if "j < length xs" for j
    using that by (simp add: Math_max_upper)
  have "xs ! j < xs ! i" if "j < i" for j
    using that i le[of j] by (metis le_neq_implies_less less_trans)
  with i le show ?thesis by auto
qed

text \<open>
  C9. Tie-break determinism: for every non-empty record list, the most active hour is the
  lowest index among the 24 hour buckets attaining the maximum count (no bucket holds
  more records, every bucket of a lower index holds strictly fewer), and the most active
  day is the lowest index among the 7 day buckets attaining the maximum count.
\<close>

theorem mostActive_lowest_index:
  assumes "activities \<noteq> []"
  shows "(\<exists>h<24. mostActiveHour (processActivities c activities) = int h \<and>
            (\<forall>j<24. recordsInHour c activities j \<le> recordsInHour c activities h) \<and>
            (\<forall>j<h. recordsInHour c activities j < recordsInHour c activities h)) \<and>
         (\<exists>d<7. mostActiveDay (processActivities c activities) = int d \<and>
            (\<forall>j<7. recordsOnDay c activities j \<le> recordsOnDay c activities d) \<and>
            (\<forall>j<d. recordsOnDay c activities j < recordsOnDay c activities d))"
proof -
  let ?s = "tally c activities"
  have hne: "hourCounts ?s \<noteq> []" and dne: "dayCounts ?s \<noteq> []"
    using hourCounts_tally(1)[of c activities] dayCounts_tally(1)[of c activities] by auto
  have mh: "mostActiveHour (processActivities c activities) =
      indexOf (hourCounts ?s) (Math_max (hourCounts ?s))"
    and md: "mostActiveDay (processActivities c activities) =
      indexOf (dayCounts ?s) (Math_max (dayCounts ?s))"
    using assms by (simp_all add: processActivities_def Let_def)
  from first_maximum[OF hne] obtain h where h: "h < 24"
    "indexOf (hourCounts ?s) (Math_max (hourCounts ?s)) = int h"
    "\<forall>j<24. hourCounts ?s ! j \<le> hourCounts ?s ! h"
    "\<forall>j<h. hourCounts ?s ! j < hourCounts ?s ! h"
    by (auto simp: hourCounts_tally(1))
  from first_maximum[OF dne] obtain d where d: "d < 7"
    "indexOf (dayCounts ?s) (Math_max (dayCounts ?s)) = int d"
    "\<forall>j<7. dayCounts ?s ! j \<le> dayCounts ?s ! d"
    "\<forall>j<d. dayCounts ?s ! j < dayCounts ?s ! d"
    by (auto simp: dayCounts_tally(1))
  have "\<exists>h<24. mostActiveHour (processActivities c activities) = int h \<and>
            (\<forall>j<24. recordsInHour c activities j \<le> recordsInHour c activities h) \<and>
            (\<forall>j<h. recordsInHour c activities j < recordsInHour c activities h)"
    using h by (intro exI[of _ h]) (simp add: mh hourCounts_tally(2))
  moreover have "\<exists>d<7. mostActiveDay (processActivities c activities) = int d \<and>
            (\<forall>j<7. recordsOnDay c activities j \<le> recordsOnDay c activities d) \<and>
            (\<forall>j<d. recordsOnDay c activities j < recordsOnDay c activities d)"
    using d by (intro exI[of _ d]) (simp add: md dayCounts_tally(2))
  ultimately show ?thesis by blast
qed

lemma mset_insertIndexed: "mset (insertIndexed i k v obj) = add_mset (k, v) (mset obj)"
  by (induction obj) (auto split: option.splits)

lemma mset_createProperty: "mset (createProperty k v obj) = add_mset (k, v) (mset obj)"
  by (simp add: createProperty_def mset_insertIndexed split: option.splits)

lemma set_createProperty: "set (createProperty k v obj) = insert (k, v) (set obj)"
  using mset_createProperty[of k v obj] by (metis set_mset_add_mset_insert set_mset_mset)

lemma distinct_createProperty:
  assumes "k \<notin> fst ` set obj" "distinct (map fst obj)"
  shows "distinct (map fst (createProperty k v obj))"
proof -
  have "mset (map fst (createProperty k v obj)) = mset (k # map fst obj)"
    unfolding mset_map mset_createProperty by simp
  moreover have "distinct (k # map fst obj)"
    using assms by simp
  ultimately show ?thesis
    by (metis mset_eq_imp_distinct_iff)
qed

lemma map_of_createProperty:
  assumes "k \<notin> fst ` set obj" "distinct (map fst obj)"
  shows "map_of (createProperty k v obj) k' = (if k' = k then Some v else map_of obj k')"
proof (cases "map_of obj k'")
  case None
  then have nk: "k' \<notin> fst ` set obj"
    by (simp add: map_of_eq_None_iff)
  show ?thesis
  proof (cases "k' = k")
    case True
    then show ?thesis
      using distinct_createProperty[OF assms, of v]
      by (simp add: map_of_eq_Some_iff set_createProperty)
  next
    case False
    with nk have "k' \<notin> fst ` set (createProperty k v obj)"
      by (auto simp: set_createProperty)
    then have "map_of (createProperty k v obj) k' = None"
      by (simp add: map_of_eq_None_iff)
    with False None show ?thesis
      by simp
  qed
next
  case (Some x)
  then have mem: "(k', x) \<in> set obj"
    by (rule map_of_SomeD)
  then have "k' \<in> fst ` set obj"
    by force
  with assms(1) mem have ne: "k' \<noteq> k" and "(k', x) \<in> set (createProperty k v obj)"
    by (auto simp: set_createProperty)
  with Some show ?thesis
    using distinct_createProperty[OF assms, of v]
    by (simp add: map_of_eq_Some_iff)
qed

lemma updateProperty_keys: "map fst (updateProperty k v obj) = map fst obj"
  by (induction obj) auto

lemma map_of_updateProperty:
  "k \<in> fst ` set obj \<Longrightarrow>
     map_of (updateProperty k v obj) k' = (if k' = k then Some v else map_of obj k')"
  by (induction obj) (auto simp: rev_image_eqI)

lemma not_inherited:
  assumes "k \<notin> set inheritedNames"
  shows "k \<noteq> ''__proto__''" and "map_of objectPrototype k = None"
  using assms by (simp_all add: inheritedNames_def map_of_eq_None_iff)

lemma countType_keys: "fst ` set (countType k obj) \<subseteq> insert k (fst ` set obj)"
proof -
  have u: "fst ` set (updateProperty k v obj) = fst ` set obj" for v
    using updateProperty_keys[of k v obj] by (metis set_map)
  show ?thesis
  proof (cases "map_of obj k")
    case None
    then show ?thesis
      by (auto simp: countType_def set_createProperty split: option.splits)
  next
    case (Some x)
    then show ?thesis
      by (cases x) (simp_all add: countType_def u subset_insertI)
  qed
qed

lemma countType_distinct:
  assumes "distinct (map fst obj)"
  shows "distinct (map fst (countType k obj))"
proof (cases "map_of obj k")
  case None
  then have "k \<notin> fst ` set obj"
    by (simp add: map_of_eq_None_iff)
  with assms None show ?thesis
    by (simp add: countType_def distinct_createProperty split: option.splits)
next
  case (Some x)
  with assms show ?thesis
    by (cases x) (simp_all add: countType_def updateProperty_keys)
qed

lemma countType_other:
  assumes "distinct (map fst obj)" "k' \<noteq> k"
  shows "map_of (countType k obj) k' = map_of obj k'"
proof (cases "map_of obj k")
  case None
  then have "k \<notin> fst ` set obj"
    by (simp add: map_of_eq_None_iff)
  with assms None show ?thesis
    by (simp add: countType_def map_of_createProperty split: option.splits)
next
  case (Some x)
  then have "k \<in> fst ` set obj"
    by (metis map_of_eq_None_iff option.distinct(1))
  with assms Some show ?thesis
    by (cases x) (simp_all add: countType_def map_of_updateProperty)
qed

lemma countType_same:
  assumes "distinct (map fst obj)" "k \<notin> set inheritedNames"
  shows "map_of (countType k obj) k =
     (case map_of obj k of
        None \<Rightarrow> Some (Count 1)
      | Some (Count n) \<Rightarrow> Some (Count (n + 1))
      | Some (Text s) \<Rightarrow> Some (if s = [] then Count 1 else Text (s @ ''1'')))"
proof (cases "map_of obj k")
  case None
  then have "k \<notin> fst ` set obj"
    by (simp add: map_of_eq_None_iff)
  with assms None show ?thesis
    by (simp add: countType_def map_of_createProperty not_inherited)
next
  case (Some x)
  then have "k \<in> fst ` set obj"
    by (metis map_of_eq_None_iff option.distinct(1))
  with Some show ?thesis
    by (cases x) (simp_all add: countType_def map_of_updateProperty)
qed

lemma typeCounts_foldl_keys:
  "distinct (map fst (typeCounts s)) \<Longrightarrow>
     distinct (map fst (typeCounts (foldl (processActivity c) s as))) \<and>
     fst ` set (typeCounts (foldl (processActivity c) s as)) \<subseteq>
       fst ` set (typeCounts s) \<union> type ` set as"
proof (induction as arbitrary: s)
  case Nil
  then show ?case by simp
next
  case (Cons a as)
  have d: "distinct (map fst (typeCounts (processActivity c s a)))"
    using Cons.prems by (simp add: typeCounts_step countType_distinct)
  have k: "fst ` set (typeCounts (processActivity c s a)) \<subseteq>
      insert (type a) (fst ` set (typeCounts s))"
    by (simp add: typeCounts_step countType_keys)
  have "fst ` set (typeCounts (foldl (processActivity c) (processActivity c s a) as)) \<subseteq>
      fst ` set (typeCounts s) \<union> type ` set (a # as)"
    using Cons.IH[OF d] k by (simp add: subset_iff) blast
  with Cons.IH[OF d] show ?case
    by simp
qed

lemma typeCounts_foldl_map_of:
  assumes "k \<notin> set inheritedNames"
  shows "distinct (map fst (typeCounts s)) \<Longrightarrow> \<forall>t. map_of (typeCounts s) k \<noteq> Some (Text t) \<Longrightarrow>
     map_of (typeCounts (foldl (processActivity c) s as)) k =
       (case map_of (typeCounts s) k of
          None \<Rightarrow> if length (filter (\<lambda>a. type a = k) as) = 0 then None
                  else Some (Count (length (filter (\<lambda>a. type a = k) as)))
        | Some (Count m) \<Rightarrow> Some (Count (m + length (filter (\<lambda>a. type a = k) as)))
        | Some (Text t) \<Rightarrow> Some (Text t))"
proof (induction as arbitrary: s)
  case Nil
  then show ?case by (simp split: option.splits propval.splits)
next
  case (Cons a as)
  let ?s = "processActivity c s a"
  have d: "distinct (map fst (typeCounts ?s))"
    using Cons.prems(1) by (simp add: typeCounts_step countType_distinct)
  show ?case
  proof (cases "type a = k")
    case True
    have m: "map_of (typeCounts ?s) k =
        (case map_of (typeCounts s) k of None \<Rightarrow> Some (Count 1)
         | Some (Count n) \<Rightarrow> Some (Count (n + 1))
         | Some (Text t) \<Rightarrow> Some (if t = [] then Count 1 else Text (t @ ''1'')))"
      using countType_same[OF Cons.prems(1) assms] by (simp add: typeCounts_step True)
    have nt: "\<forall>t. map_of (typeCounts ?s) k \<noteq> Some (Text t)"
      using Cons.prems(2) by (auto simp: m split: option.splits propval.splits)
    show ?thesis
      using Cons.prems(2)
      by (simp add: Cons.IH[OF d nt] m True split: option.splits propval.splits)
  next
    case False
    have m: "map_of (typeCounts ?s) k = map_of (typeCounts s) k"
      using countType_other[OF Cons.prems(1), of k "type a"] False
      by (simp add: typeCounts_step)
    have nt: "\<forall>t. map_of (typeCounts ?s) k \<noteq> Some (Text t)"
      using Cons.prems(2) by (simp add: m)
    show ?thesis
      using False by (simp add: Cons.IH[OF d nt] m split: option.splits propval.splits)
  qed
qed

lemma activityByType_tally:
  "activityByType (processActivities c as) = typeCounts (tally c as)"
  by (cases as) (simp_all add: processActivities_def Let_def tally_def initialCounters_def)

lemma totalActivities_length: "totalActivities (processActivities c as) = length as"
  by (simp add: processActivities_def Let_def)

text \<open>
  C7 (as amended). The aggregator checks no kind and rejects or flags no record: every
  record is counted in the total, the keys of the per-kind counts are kind strings of
  the input records (so they are members of the enumeration when the kinds of all records
  are), and for every kind string that is not a name a plain object inherits, in the
  enumeration or not, the per-kind counts hold the number of records of that kind when
  it occurs and no entry otherwise.
\<close>

theorem activityByType_counts_every_kind:
  "totalActivities (processActivities c activities) = length activities \<and>
   distinct (map fst (activityByType (processActivities c activities))) \<and>
   set (map fst (activityByType (processActivities c activities))) \<subseteq> type ` set activities \<and>
   (k \<notin> set inheritedNames \<longrightarrow>
      map_of (activityByType (processActivities c activities)) k =
        (if k \<in> type ` set activities
         then Some (Count (length (filter (\<lambda>a. type a = k) activities))) else None))"
proof -
  have keys: "distinct (map fst (typeCounts (tally c activities)))"
    "fst ` set (typeCounts (tally c activities)) \<subseteq> type ` set activities"
    using typeCounts_foldl_keys[of initialCounters c activities]
    by (simp_all add: tally_def initialCounters_def)
  have eq: "(length (filter (\<lambda>a. type a = k) activities) = 0) = (k \<notin> type ` set activities)"
    by (auto simp: filter_empty_conv)
  have "map_of (typeCounts (tally c activities)) k =
     (if k \<in> type ` set activities
      then Some (Count (length (filter (\<lambda>a. type a = k) activities))) else None)"
    if "k \<notin> set inheritedNames"
    using typeCounts_foldl_map_of[OF that, of initialCounters c activities] eq
    by (simp add: tally_def initialCounters_def)
  with keys show ?thesis
    by (simp add: activityByType_tally totalActivities_length)
qed

theorem activityByType_counts_every_kind_witness:
  "''LOGIN'' \<notin> set inheritedNames \<and>
   map_of (activityByType (processActivities testClock [unknownKindActivity])) ''LOGIN'' =
     Some (Count 1)"
proof -
  have h: "''LOGIN'' \<notin> set inheritedNames"
    by (simp add: inheritedNames_def objectPrototype_def)
  from activityByType_counts_every_kind[of testClock "[unknownKindActivity]" "''LOGIN''"] h
  have "map_of (activityByType (processActivities testClock [unknownKindActivity])) ''LOGIN'' =
     (if ''LOGIN'' \<in> type ` set [unknownKindActivity]
      then Some (Count (length (filter (\<lambda>a. type a = ''LOGIN'') [unknownKindActivity])))
      else None)"
    by blast
  with h show ?thesis
    by (simp add: unknownKindActivity_def)
qed

text \<open>
  C7 as stated fails: a record of the unknown kind \<open>LOGIN\<close> is counted under that key.
\<close>

theorem unknown_kind_counted:
  "\<not> set (map fst (activityByType (processActivities testClock [unknownKindActivity])))
       \<subseteq> set ActivityType"
  by (simp add: activityByType_tally tally_def initialCounters_def processActivity_def
      unknownKindActivity_def testClock_def ActivityType_def Let_def countType_def
      objectPrototype_def createProperty_def arrayIndex_def)

text \<open>
  What the prototype does to kinds that name one of its members, and the order of the
  keys: two records of kind \<open>toString\<close> leave a string, a record of kind \<open>__proto__\<close>
  leaves no key (so that the number of keys is not the number of kinds observed), and
  array indices come first.
\<close>

lemma prototype_kinds:
  "activityByType (processActivities testClock [kindActivity ''toString'', kindActivity ''toString''])
     = [(''toString'', Text ''function toString() { [native code] }11'')]"
  "activityByType (processActivities testClock [kindActivity ''__proto__'']) = []"
  "activityByType (processActivities testClock
      [kindActivity ''CLICK'', kindActivity ''10'', kindActivity ''9'', kindActivity ''01''])
     = [(''9'', Count 1), (''10'', Count 1), (''CLICK'', Count 1), (''01'', Count 1)]"
  by (simp_all add: activityByType_tally tally_def initialCounters_def processActivity_def
      kindActivity_def unknownKindActivity_def testClock_def Let_def countType_def
      objectPrototype_def nativeSource_def createProperty_def arrayIndex_def digitChar_def)

lemma js_add_NaN [simp]: "js_add c x NaN = NaN" "js_add c NaN y = NaN"
  by (cases x; simp) (cases y; simp)

lemma js_mul_NaN [simp]: "js_mul c NaN y = NaN" "js_mul c x NaN = NaN"
  by (cases y; simp) (cases x; simp)

lemma js_div_NaN [simp]: "js_div c NaN y = NaN" "js_div c x NaN = NaN"
  by (cases y; simp) (cases x; simp)

lemma Math_minmax_NaN [simp]:
  "Math_min2 x NaN = NaN" "Math_min2 NaN y = NaN" "Math_max2 x NaN = NaN" "Math_max2 NaN y = NaN"
  by (simp_all add: Math_min2_def Math_max2_def)

lemma totalDuration_step:
  "totalDuration (processActivity c s a) =
     (case durationSec a of
        None \<Rightarrow> totalDuration s
      | Some d \<Rightarrow> if js_truthy d then js_add c (totalDuration s) d else totalDuration s)"
  by (simp add: processActivity_def Let_def split: option.splits)

lemma calculateEngagementScore_NaN:
  "averageDurationSec m = NaN \<Longrightarrow> calculateEngagementScore c m = NaN"
  by (simp add: calculateEngagementScore_def Let_def)

text \<open>
  The clamp leaves exactly this: the score is NaN or an integer between 0 and 100.
\<close>

lemma calculateEngagementScore_range:
  "calculateEngagementScore c m = NaN \<or>
   (\<exists>i. calculateEngagementScore c m = Fin (of_int i) \<and> 0 \<le> i \<and> i \<le> 100)"
proof -
  have "Math_min2 (Fin 100) (Math_max2 (Fin 0) (Math_round x)) = NaN \<or>
      (\<exists>i. Math_min2 (Fin 100) (Math_max2 (Fin 0) (Math_round x)) = Fin (of_int i) \<and>
           0 \<le> i \<and> i \<le> 100)" for x
  proof (cases x)
    case (Fin a)
    have "Math_min2 (Fin 100) (Math_max2 (Fin 0) (Fin (of_int r))) =
        Fin (of_int (min 100 (max 0 r)))" for r :: int
      by (simp add: Math_min2_def Math_max2_def min_def max_def)
    then have "Math_min2 (Fin 100) (Math_max2 (Fin 0) (Math_round x)) =
        Fin (of_int (min 100 (max 0 \<lfloor>a + 1 / 2\<rfloor>)))"
      by (simp only: Fin Math_round.simps)
    then show ?thesis
      by (intro disjI2 exI[of _ "min 100 (max 0 \<lfloor>a + 1 / 2\<rfloor>)"]) simp
  next
    case NaN
    then show ?thesis by simp
  next
    case NegInfinity
    then show ?thesis
      by (intro disjI2 exI[of _ 0]) (simp add: Math_min2_def Math_max2_def)
  next
    case Infinity
    then show ?thesis
      by (intro disjI2 exI[of _ 100]) (simp add: Math_min2_def Math_max2_def)
  qed
  then show ?thesis
    by (simp add: calculateEngagementScore_def Let_def)
qed

text \<open>
  C2 (a defect of the code). The claim asks, for any input, for a score between 0 and
  100. For two records whose durations are \<open>Infinity\<close> and \<open>-Infinity\<close> the total
  duration is NaN, so the average duration is NaN and the engagement score is NaN, on
  every host: the clamp \<^verbatim>\<open>Math.min(100, Math.max(0, Math.round(score)))\<close> lets NaN
  through.
\<close>

theorem engagementScore_NaN:
  "averageDurationSec (processActivities c infiniteDurations) = NaN \<and>
   engagementScore (processActivities c infiniteDurations) = NaN"
proof -
  have t: "totalDuration (tally c infiniteDurations) = NaN"
    by (simp add: tally_def infiniteDurations_def initialCounters_def totalDuration_step)
  have a: "averageDurationSec (processActivities c infiniteDurations) = NaN"
    by (simp add: processActivities_def Let_def t) (simp add: infiniteDurations_def)
  have "engagementScore (processActivities c infiniteDurations) =
      calculateEngagementScore c (processActivities c infiniteDurations)"
    by (simp add: processActivities_def Let_def calculateEngagementScore_def)
       (simp add: infiniteDurations_def)
  with a show ?thesis
    by (simp add: calculateEngagementScore_NaN)
qed

theorem mostActive_lowest_index_witness:
  "mockActivities \<noteq> [] \<and>
   (\<exists>h<24. mostActiveHour (processActivities testClock mockActivities) = int h \<and>
      (\<forall>j<24. recordsInHour testClock mockActivities j
              \<le> recordsInHour testClock mockActivities h) \<and>
      (\<forall>j<h. recordsInHour testClock mockActivities j
              < recordsInHour testClock mockActivities h)) \<and>
   (\<exists>d<7. mostActiveDay (processActivities testClock mockActivities) = int d \<and>
      (\<forall>j<7. recordsOnDay testClock mockActivities j
              \<le> recordsOnDay testClock mockActivities d) \<and>
      (\<forall>j<d. recordsOnDay testClock mockActivities j
              < recordsOnDay testClock mockActivities d))"
proof -
  have ne: "mockActivities \<noteq> []"
    by (simp add: mockActivities_def)
  from mostActive_lowest_index[OF ne, of testClock] ne show ?thesis by blast
qed

section \<open>Properties of the cache key\<close>

lemma set_insertEntry: "set (insertEntry f x ys) = insert x (set ys)"
  by (induction ys) auto

lemma mset_insertEntry: "mset (insertEntry f x ys) = add_mset x (mset ys)"
  by (induction ys) auto

lemma mset_sortWith_foldl:
  "mset (foldl (\<lambda>acc x. insertEntry f x acc) acc xs) = mset acc + mset xs"
  by (induction xs arbitrary: acc) (auto simp: mset_insertEntry)

lemma mset_sortWith: "mset (sortWith f xs) = mset xs"
  by (simp add: sortWith_def mset_sortWith_foldl)

lemma sortWith_Nil_iff: "sortWith f xs = [] \<longleftrightarrow> xs = []"
  using mset_sortWith[of f xs] by (metis mset_zero_iff)

lemma sorted_insertEntry:
  assumes "strictOn f A" "x \<in> A" "set ys \<subseteq> A" "x \<notin> set ys"
    "sorted_wrt (\<lambda>a b. f a b < 0) ys"
  shows "sorted_wrt (\<lambda>a b. f a b < 0) (insertEntry f x ys)"
  using assms(3-5)
proof (induction ys)
  case Nil
  then show ?case by simp
next
  case (Cons y ys)
  have tr: "f a b < 0 \<Longrightarrow> f b c < 0 \<Longrightarrow> f a c < 0" if "a \<in> A" "b \<in> A" "c \<in> A" for a b c
    using assms(1) that unfolding strictOn_def by blast
  have tot: "a \<noteq> b \<Longrightarrow> f a b < 0 \<or> f b a < 0" if "a \<in> A" "b \<in> A" for a b
    using assms(1) that unfolding strictOn_def by blast
  show ?case
  proof (cases "f x y < 0")
    case True
    have "f x z < 0" if "z \<in> set ys" for z
      using tr[of x y z] True that Cons.prems assms(2) by auto
    with True Cons.prems show ?thesis by auto
  next
    case False
    have "x \<noteq> y" using Cons.prems by auto
    with tot[of x y] False assms(2) Cons.prems have yx: "f y x < 0" by auto
    have "sorted_wrt (\<lambda>a b. f a b < 0) (insertEntry f x ys)"
      using Cons by auto
    with False yx Cons.prems show ?thesis
      by (auto simp: set_insertEntry)
  qed
qed

lemma sorted_sortWith_foldl:
  assumes "strictOn f A"
  shows "set acc \<subseteq> A \<Longrightarrow> set xs \<subseteq> A \<Longrightarrow> distinct (acc @ xs) \<Longrightarrow>
     sorted_wrt (\<lambda>a b. f a b < 0) acc \<Longrightarrow>
     sorted_wrt (\<lambda>a b. f a b < 0) (foldl (\<lambda>acc x. insertEntry f x acc) acc xs)"
proof (induction xs arbitrary: acc)
  case Nil
  then show ?case by simp
next
  case (Cons x xs)
  have s: "sorted_wrt (\<lambda>a b. f a b < 0) (insertEntry f x acc)"
    using sorted_insertEntry[OF assms, of x acc] Cons.prems by auto
  have "mset (insertEntry f x acc @ xs) = mset (acc @ x # xs)"
    by (simp add: mset_insertEntry)
  then have d: "distinct (insertEntry f x acc @ xs)"
    using Cons.prems(3) by (metis mset_eq_imp_distinct_iff)
  show ?case
    using Cons.IH[of "insertEntry f x acc"] s d Cons.prems
    by (simp add: set_insertEntry)
qed

lemma sorted_wrt_unique:
  assumes "strictOn f A"
  shows "set xs \<subseteq> A \<Longrightarrow> sorted_wrt (\<lambda>a b. f a b < 0) xs \<Longrightarrow>
     sorted_wrt (\<lambda>a b. f a b < 0) ys \<Longrightarrow> set xs = set ys \<Longrightarrow> xs = ys"
proof (induction xs arbitrary: ys)
  case Nil
  then show ?case by simp
next
  case (Cons x xs)
  then obtain y ys' where ys: "ys = y # ys'" by (cases ys) auto
  have asym: "f a b < 0 \<Longrightarrow> \<not> f b a < 0" if "a \<in> A" "b \<in> A" for a b
    using assms that unfolding strictOn_def by blast
  have inA: "x \<in> A" "y \<in> A" "set xs \<subseteq> A" "set ys' \<subseteq> A"
    using Cons.prems ys by auto
  have xy: "x = y"
  proof (rule ccontr)
    assume ne: "x \<noteq> y"
    have "x \<in> set ys'" using Cons.prems(4) ys ne by auto
    then have 1: "f y x < 0" using Cons.prems(3) ys by auto
    have "y \<in> set xs" using Cons.prems(4) ys ne by auto
    then have 2: "f x y < 0" using Cons.prems(2) by auto
    from asym[OF inA(1,2) 2] 1 show False by simp
  qed
  have nx: "x \<notin> set xs"
  proof
    assume "x \<in> set xs"
    then have "f x x < 0" using Cons.prems(2) by auto
    with asym[OF inA(1) inA(1)] show False by blast
  qed
  have ny: "y \<notin> set ys'"
  proof
    assume "y \<in> set ys'"
    then have "f y y < 0" using Cons.prems(3) ys by auto
    with asym[OF inA(2) inA(2)] show False by blast
  qed
  have "set xs = set ys'"
    using Cons.prems(4) ys xy nx ny by auto
  with Cons.IH[of ys'] Cons.prems ys inA have "xs = ys'" by auto
  with xy ys show ?case by simp
qed

lemma sortWith_permutation:
  assumes "strictOn f (set xs)" "distinct xs" "mset xs = mset ys"
  shows "sortWith f xs = sortWith f ys"
proof -
  have sets: "set ys = set xs" using assms(3) by (metis set_mset_mset)
  have dys: "distinct ys" using assms(2,3) by (metis mset_eq_imp_distinct_iff)
  have sx: "sorted_wrt (\<lambda>a b. f a b < 0) (sortWith f xs)"
    unfolding sortWith_def
    using sorted_sortWith_foldl[OF assms(1), of "[]" xs] assms(2) by simp
  have sy: "sorted_wrt (\<lambda>a b. f a b < 0) (sortWith f ys)"
    unfolding sortWith_def
    using sorted_sortWith_foldl[OF assms(1), of "[]" ys] dys sets by simp
  have "set (sortWith f xs) = set xs" "set (sortWith f ys) = set xs"
    using mset_sortWith[of f xs] mset_sortWith[of f ys] sets by (metis set_mset_mset)+
  then show ?thesis
    using sorted_wrt_unique[OF assms(1) _ sx sy] by simp
qed

lemma strictOn_entries:
  assumes "consistentComparator cmp (map fst F)" "distinct (map fst F)" "set S \<subseteq> set F"
  shows "strictOn (entryCompare cmp) (set S)"
proof -
  have key: "fst a \<in> set (map fst F)" if "a \<in> set S" for a
    using that assms(3) by auto
  have inj: "a = b" if "a \<in> set S" "b \<in> set S" "fst a = fst b" for a b
    using that assms(2,3) by (meson distinct_map inj_onD subsetD)
  have c1: "(cmp k l < 0 \<longleftrightarrow> 0 < cmp l k) \<and> (cmp k l = 0 \<longrightarrow> k = l)"
    if "k \<in> set (map fst F)" "l \<in> set (map fst F)" for k l
    using assms(1) that unfolding consistentComparator_def by blast
  have c2: "cmp k l < 0 \<Longrightarrow> cmp l m < 0 \<Longrightarrow> cmp k m < 0"
    if "k \<in> set (map fst F)" "l \<in> set (map fst F)" "m \<in> set (map fst F)" for k l m
    using assms(1) that unfolding consistentComparator_def by blast
  have ec: "entryCompare cmp a b = cmp (fst a) (fst b)" for a b
    by (simp add: entryCompare_def split: prod.splits)
  show ?thesis
    unfolding strictOn_def ec
  proof (intro conjI ballI impI)
    fix a b assume "a \<in> set S" "b \<in> set S" "cmp (fst a) (fst b) < 0"
    then show "\<not> cmp (fst b) (fst a) < 0"
      using c1[OF key key, of a b] by auto
  next
    fix a b assume ab: "a \<in> set S" "b \<in> set S" "a \<noteq> b"
    then have "fst a \<noteq> fst b" using inj by blast
    then show "cmp (fst a) (fst b) < 0 \<or> cmp (fst b) (fst a) < 0"
      using c1[OF key key, of a b] c1[OF key key, of b a] ab
      by (metis linorder_neqE_linordered_idom)
  next
    fix a b c assume "a \<in> set S" "b \<in> set S" "c \<in> set S"
      "cmp (fst a) (fst b) < 0" "cmp (fst b) (fst c) < 0"
    then show "cmp (fst a) (fst c) < 0"
      using c2[OF key key key, of a b c] by blast
  qed
qed

text \<open>
  C5. Cache-key determinism: for every namespace and subject id, two filters that are
  permutations of one another (the same fields with the same values, in any insertion
  order; the field names of an object are distinct) give the identical key, for any
  \<^verbatim>\<open>localeCompare\<close> that orders the field names consistently.
\<close>

theorem cacheKey_permutation_invariant:
  assumes "distinct (map fst F1)" "mset F1 = mset F2"
    "consistentComparator localeCompare (map fst F1)"
  shows "generateCacheKey localeCompare ns uid (Some F1) =
         generateCacheKey localeCompare ns uid (Some F2)"
proof -
  let ?p = "\<lambda>(_, v). v \<noteq> Undefined"
  have len: "length F1 = length F2"
    using assms(2) by (metis size_mset)
  have d: "distinct (filter ?p F1)"
    using assms(1) by (simp add: distinct_map)
  have m: "mset (filter ?p F1) = mset (filter ?p F2)"
    using assms(2) by (metis mset_filter)
  have st: "strictOn (entryCompare localeCompare) (set (filter ?p F1))"
    using strictOn_entries[OF assms(3) assms(1), of "filter ?p F1"] by simp
  have "sortWith (entryCompare localeCompare) (filter ?p F1) =
        sortWith (entryCompare localeCompare) (filter ?p F2)"
    by (rule sortWith_permutation[OF st d m])
  then show ?thesis
    by (simp add: generateCacheKey_def len Let_def entryCompare_def)
qed


theorem cacheKey_permutation_invariant_witness:
  "distinct (map fst filterA) \<and> mset filterA = mset filterB \<and>
   consistentComparator codeUnitCompare (map fst filterA) \<and>
   generateCacheKey codeUnitCompare ''activity'' ''user123'' (Some filterA) =
   generateCacheKey codeUnitCompare ''activity'' ''user123'' (Some filterB)"
proof -
  have h1: "distinct (map fst filterA)"
    by (simp add: filterA_def)
  have h2: "mset filterA = mset filterB"
    by (simp add: filterA_def filterB_def)
  have h3: "consistentComparator codeUnitCompare (map fst filterA)"
    by (simp add: consistentComparator_def filterA_def)
  from cacheKey_permutation_invariant[OF h1 h2 h3] h1 h2 h3 show ?thesis by blast
qed

text \<open>
  C6 (as amended). For every namespace, subject id and filter the key is exactly
  \<open>user-activity:<subjectId>:<namespace>:<tag>\<close>, where the tag is the base64 encoding of
  the fields that survive (value not undefined), sorted by name, written \<open>name=value\<close>
  and joined with \<open>&\<close>; when no field survives, or no filter is given, the key is
  \<open>user-activity:<subjectId>:<namespace>\<close> with no tag segment.
\<close>

theorem generateCacheKey_format:
  "generateCacheKey localeCompare ns uid f =
     (let surviving = (case f of None \<Rightarrow> []
                       | Some entries \<Rightarrow> filter (\<lambda>(_, v). v \<noteq> Undefined) entries)
      in if surviving = [] then ''user-activity:'' @ uid @ '':'' @ ns
         else ''user-activity:'' @ uid @ '':'' @ ns @ '':'' @
              base64 (join ''&'' (map (\<lambda>(k, v). k @ ''='' @ toString v)
                (sortWith (\<lambda>(keyA, _) (keyB, _). localeCompare keyA keyB) surviving))))"
proof (cases f)
  case None
  then show ?thesis by (simp add: generateCacheKey_def)
next
  case (Some entries)
  show ?thesis
  proof (cases "entries = []")
    case True
    with Some show ?thesis by (simp add: generateCacheKey_def)
  next
    case False
    with Some show ?thesis
      by (simp add: generateCacheKey_def Let_def sortWith_Nil_iff)
  qed
qed

text \<open>
  C6 as stated fails: the key does not start with the namespace, neither without a tag
  nor with one.
\<close>

theorem cacheKey_not_namespace_first:
  "generateCacheKey codeUnitCompare ''metrics'' ''user123'' None \<noteq> ''metrics:user123'' \<and>
   generateCacheKey codeUnitCompare ''metrics'' ''user123'' (Some [(''timeRangeInDays'', Num 0)])
     \<noteq> ''metrics:user123:dGltZVJhbmdlSW5EYXlzPTA=''"
  by (simp add: generateCacheKey_def sortWith_def showInt_def digitChar_def sextet_def
      base64Alphabet_def)

lemma cacheKey_examples:
  "generateCacheKey codeUnitCompare ''metrics'' ''user123'' None = ''user-activity:user123:metrics''"
  "generateCacheKey codeUnitCompare ''metrics'' ''user123'' (Some [(''timeRangeInDays'', Undefined)])
     = ''user-activity:user123:metrics''"
  "generateCacheKey codeUnitCompare ''metrics'' ''user123'' (Some [(''timeRangeInDays'', Num 0)])
     = ''user-activity:user123:metrics:dGltZVJhbmdlSW5EYXlzPTA=''"
  by (simp_all add: generateCacheKey_def sortWith_def showInt_def digitChar_def sextet_def
      base64Alphabet_def)

section \<open>Properties of the service\<close>

lemma getFromCache_try_fst:
  "fst (getFromCache_try sv p w k) = w\<lparr>trace := trace w @ [CacheGet k]\<rparr>"
  by (simp add: getFromCache_try_def Let_def split: option.splits prod.splits parsed.splits)

lemma getFromCache_eq:
  "getFromCache sv p w k =
     (case snd (getFromCache_try sv p w k) of
        Inl err \<Rightarrow>
          (w\<lparr>trace := trace w @ [CacheGet k,
               Log Warn ''Cache retrieval failed, falling back to API''
                 [(''key'', LStr k), (''error'', LFailure err)]]\<rparr>, None)
      | Inr r \<Rightarrow> (w\<lparr>trace := trace w @ [CacheGet k]\<rparr>, r))"
proof -
  obtain w1 r where eq: "getFromCache_try sv p w k = (w1, r)"
    by (cases "getFromCache_try sv p w k")
  with getFromCache_try_fst[of sv p w k] have w1: "w1 = w\<lparr>trace := trace w @ [CacheGet k]\<rparr>"
    by simp
  show ?thesis
    by (simp add: getFromCache_def eq w1 logger_def split: sum.splits)
qed

lemma getFromCache_cache [simp]: "cache (fst (getFromCache sv p w k)) = cache w"
  by (simp add: getFromCache_eq split: sum.splits)

lemma getFromCache_httpCalls [simp]:
  "filter isHttpGet (trace (fst (getFromCache sv p w k))) = filter isHttpGet (trace w)"
  by (simp add: getFromCache_eq split: sum.splits)

lemma getFromCache_trace: "\<exists>xs. trace (fst (getFromCache sv p w k)) = trace w @ xs"
  by (simp add: getFromCache_eq split: sum.splits)

lemma getFromCache_try_snd_cong:
  "cache w = cache w' \<Longrightarrow> snd (getFromCache_try sv p w k) = snd (getFromCache_try sv p w' k)"
  by (simp add: getFromCache_try_def Let_def split: option.splits prod.splits parsed.splits)

lemma getFromCache_snd:
  "snd (getFromCache sv p w k) =
     (case snd (getFromCache_try sv p w k) of Inl err \<Rightarrow> None | Inr r \<Rightarrow> r)"
  by (simp add: getFromCache_def split: prod.splits sum.splits)

lemma getFromCache_snd_cong:
  "cache w = cache w' \<Longrightarrow> snd (getFromCache sv p w k) = snd (getFromCache sv p w' k)"
  by (simp add: getFromCache_snd getFromCache_try_snd_cong[of w w'])

lemma setInCache_eq:
  "setInCache sv str w k d ttl =
     (case cacheSetexError sv k of
        Some err \<Rightarrow>
          w\<lparr>trace := trace w @ [CacheSetex k ttl (str d),
               Log Warn ''Failed to cache data'' [(''key'', LStr k), (''error'', LFailure err)]]\<rparr>
      | None \<Rightarrow>
          w\<lparr>trace := trace w @ [CacheSetex k ttl (str d)],
            cache := (cache w)(k \<mapsto> (ttl, str d))\<rparr>)"
  by (simp add: setInCache_def setInCache_try_def logger_def Let_def split: option.splits)

lemma setInCache_httpCalls [simp]:
  "filter isHttpGet (trace (setInCache sv str w k d ttl)) = filter isHttpGet (trace w)"
  by (simp add: setInCache_eq split: option.splits)

lemma setInCache_trace: "\<exists>xs. trace (setInCache sv str w k d ttl) = trace w @ xs"
  by (simp add: setInCache_eq split: option.splits)

lemma handleError_trace:
  "\<exists>ctx'. handleError message err ctx w = w\<lparr>trace := trace w @ [Log Err message (ctx @ ctx')]\<rparr>"
  by (cases err) (simp_all add: handleError_def logger_def, blast+)

lemma handleError_cache [simp]: "cache (handleError message err ctx w) = cache w"
  using handleError_trace[of message err ctx w] by auto

lemma handleError_httpCalls [simp]:
  "filter isHttpGet (trace (handleError message err ctx w)) = filter isHttpGet (trace w)"
  using handleError_trace[of message err ctx w] by auto


lemma getUserActivity_hit:
  assumes "snd (getFromCache sv (parseActivities sv) w (activityKey sv uid f)) = Some cached"
  shows "getUserActivity sv w uid f =
     (logger Debug ''Retrieved user activity from cache'' [(''userId'', LStr uid)]
        (fst (getFromCache sv (parseActivities sv) w (activityKey sv uid f))),
      Inr cached)"
proof -
  obtain w1 where eq: "getFromCache sv (parseActivities sv) w
      (generateCacheKey (localeCompareFn sv) ''activity'' uid f) = (w1, Some cached)"
    using assms unfolding activityKey_def by (metis prod.collapse)
  show ?thesis
    by (simp add: getUserActivity_def getUserActivity_try_def activityKey_def eq)
qed

lemma getUserActivity_miss:
  assumes "snd (getFromCache sv (parseActivities sv) w (activityKey sv uid f)) = None"
  shows "getUserActivity sv w uid f =
     (let w2 = logger Debug ''Fetching user activity from API''
                 [(''userId'', LStr uid), (''filter'', LFilter f)]
                 (fst (getFromCache sv (parseActivities sv) w (activityKey sv uid f)));
          w3 = w2\<lparr>trace := trace w2 @
                  [HttpGet (activityEndpoint sv uid) f (timeoutMs (apiConfig sv))]\<rparr>
      in case httpResponse sv (activityEndpoint sv uid) f of
           Inl err \<Rightarrow>
             (handleError ''Failed to fetch user activity'' err [(''userId'', LStr uid)] w3,
              Inl err)
         | Inr activities \<Rightarrow>
             (setInCache sv (stringifyActivities sv) w3 (activityKey sv uid f) activities
                (activityTtlSec (cacheConfig sv)),
              Inr activities))"
proof -
  obtain w1 where eq: "getFromCache sv (parseActivities sv) w
      (generateCacheKey (localeCompareFn sv) ''activity'' uid f) = (w1, None)"
    using assms unfolding activityKey_def by (metis prod.collapse)
  show ?thesis
    by (simp add: getUserActivity_def getUserActivity_try_def activityKey_def
        activityEndpoint_def eq Let_def split: sum.splits)
qed

lemma logger_simps [simp]:
  "cache (logger lvl message ctx w) = cache w"
  "trace (logger lvl message ctx w) = trace w @ [Log lvl message ctx]"
  by (simp_all add: logger_def)

text \<open>
  C1. Cache-aside correctness of \<^verbatim>\<open>getUserActivity\<close>, for every user id and filter.
  When the cache read returns a stored value, that value is returned and no request goes
  to the source. When the cache read returns absent, exactly one request goes to the
  source, with the endpoint, filter and timeout of the call; if the source answers with
  records, they are returned and a \<^verbatim>\<open>setex\<close> of their serialisation under the
  activity key with the activity time-to-live is issued, which leaves them in the store
  unless the store rejects the write.
\<close>

theorem getUserActivity_cache_aside:
  "(\<forall>cached. snd (getFromCache sv (parseActivities sv) w (activityKey sv uid f)) = Some cached \<longrightarrow>
      snd (getUserActivity sv w uid f) = Inr cached \<and>
      httpCalls (fst (getUserActivity sv w uid f)) = httpCalls w) \<and>
   (snd (getFromCache sv (parseActivities sv) w (activityKey sv uid f)) = None \<longrightarrow>
      httpCalls (fst (getUserActivity sv w uid f)) =
        httpCalls w @ [HttpGet (activityEndpoint sv uid) f (timeoutMs (apiConfig sv))] \<and>
      (\<forall>activities. httpResponse sv (activityEndpoint sv uid) f = Inr activities \<longrightarrow>
         snd (getUserActivity sv w uid f) = Inr activities \<and>
         CacheSetex (activityKey sv uid f) (activityTtlSec (cacheConfig sv))
             (stringifyActivities sv activities)
           \<in> set (newEvents w (fst (getUserActivity sv w uid f))) \<and>
         (cacheSetexError sv (activityKey sv uid f) = None \<longrightarrow>
            cache (fst (getUserActivity sv w uid f)) (activityKey sv uid f) =
              Some (activityTtlSec (cacheConfig sv), stringifyActivities sv activities))))"
proof (intro conjI allI impI)
  fix cached
  assume hit: "snd (getFromCache sv (parseActivities sv) w (activityKey sv uid f)) = Some cached"
  show "snd (getUserActivity sv w uid f) = Inr cached"
    by (simp add: getUserActivity_hit[OF hit])
  show "httpCalls (fst (getUserActivity sv w uid f)) = httpCalls w"
    by (simp add: getUserActivity_hit[OF hit] httpCalls_def)
next
  assume miss: "snd (getFromCache sv (parseActivities sv) w (activityKey sv uid f)) = None"
  show "httpCalls (fst (getUserActivity sv w uid f)) =
        httpCalls w @ [HttpGet (activityEndpoint sv uid) f (timeoutMs (apiConfig sv))]"
    by (simp add: getUserActivity_miss[OF miss] Let_def httpCalls_def split: sum.splits)
  fix activities
  assume ok: "httpResponse sv (activityEndpoint sv uid) f = Inr activities"
  show "snd (getUserActivity sv w uid f) = Inr activities"
    by (simp add: getUserActivity_miss[OF miss] Let_def ok)
  obtain xs where xs: "trace (fst (getFromCache sv (parseActivities sv) w (activityKey sv uid f)))
      = trace w @ xs"
    using getFromCache_trace by blast
  show "CacheSetex (activityKey sv uid f) (activityTtlSec (cacheConfig sv))
             (stringifyActivities sv activities)
           \<in> set (newEvents w (fst (getUserActivity sv w uid f)))"
    by (simp add: getUserActivity_miss[OF miss] Let_def ok setInCache_eq newEvents_def xs
        split: option.splits)
  assume "cacheSetexError sv (activityKey sv uid f) = None"
  then show "cache (fst (getUserActivity sv w uid f)) (activityKey sv uid f) =
              Some (activityTtlSec (cacheConfig sv), stringifyActivities sv activities)"
    by (simp add: getUserActivity_miss[OF miss] Let_def ok setInCache_eq)
qed

lemma testService_keys:
  "activityKey testService ''user123'' None = ''user-activity:user123:activity''"
  "activityKey failingCacheService ''user123'' None = ''user-activity:user123:activity''"
  "activityEndpoint testService ''user123'' = ''https://api.test.com/users/user123/activity''"
  "activityEndpoint failingCacheService ''user123'' = ''https://api.test.com/users/user123/activity''"
  by (simp_all add: activityKey_def activityEndpoint_def generateCacheKey_def testService_def
      failingCacheService_def)

theorem getUserActivity_cache_aside_witness:
  "snd (getFromCache testService (parseActivities testService) warmWorld
          (activityKey testService ''user123'' None)) = Some mockActivities \<and>
   snd (getUserActivity testService warmWorld ''user123'' None) = Inr mockActivities \<and>
   httpCalls (fst (getUserActivity testService warmWorld ''user123'' None)) = httpCalls warmWorld \<and>
   snd (getFromCache testService (parseActivities testService) coldWorld
          (activityKey testService ''user123'' None)) = None \<and>
   httpCalls (fst (getUserActivity testService coldWorld ''user123'' None)) =
     httpCalls coldWorld @
       [HttpGet (activityEndpoint testService ''user123'') None (timeoutMs (apiConfig testService))] \<and>
   snd (getUserActivity testService coldWorld ''user123'' None) = Inr mockActivities \<and>
   cache (fst (getUserActivity testService coldWorld ''user123'' None))
       (activityKey testService ''user123'' None) =
     Some (activityTtlSec (cacheConfig testService),
           stringifyActivities testService mockActivities)"
proof -
  have hit: "snd (getFromCache testService (parseActivities testService) warmWorld
          (activityKey testService ''user123'' None)) = Some mockActivities"
    by (simp only: testService_keys)
       (simp add: getFromCache_def getFromCache_try_def warmWorld_def testService_def)
  have miss: "snd (getFromCache testService (parseActivities testService) coldWorld
          (activityKey testService ''user123'' None)) = None"
    by (simp only: testService_keys)
       (simp add: getFromCache_def getFromCache_try_def coldWorld_def testService_def)
  have resp: "httpResponse testService (activityEndpoint testService ''user123'') None =
      Inr mockActivities"
    by (simp only: testService_keys) (simp add: testService_def)
  have wr: "cacheSetexError testService (activityKey testService ''user123'' None) = None"
    by (simp add: testService_def)
  from getUserActivity_cache_aside[of testService warmWorld "''user123''" None] hit
  have A: "snd (getUserActivity testService warmWorld ''user123'' None) = Inr mockActivities \<and>
      httpCalls (fst (getUserActivity testService warmWorld ''user123'' None)) = httpCalls warmWorld"
    by blast
  from getUserActivity_cache_aside[of testService coldWorld "''user123''" None] miss resp wr
  have B: "httpCalls (fst (getUserActivity testService coldWorld ''user123'' None)) =
       httpCalls coldWorld @
         [HttpGet (activityEndpoint testService ''user123'') None (timeoutMs (apiConfig testService))] \<and>
     snd (getUserActivity testService coldWorld ''user123'' None) = Inr mockActivities \<and>
     cache (fst (getUserActivity testService coldWorld ''user123'' None))
         (activityKey testService ''user123'' None) =
       Some (activityTtlSec (cacheConfig testService),
             stringifyActivities testService mockActivities)"
    by blast
  from hit miss A B show ?thesis by blast
qed

lemma getUserActivity_absent:
  assumes "snd (getFromCache sv (parseActivities sv) w (activityKey sv uid f)) = None"
  shows "snd (getUserActivity sv w uid f) = fetchUncached sv uid f"
  by (simp add: getUserActivity_miss[OF assms] fetchUncached_def Let_def split: sum.splits)

lemma getUserActivity_snd_cong:
  assumes "cache w = cache w'"
  shows "snd (getUserActivity sv w uid f) = snd (getUserActivity sv w' uid f)"
proof (cases "snd (getFromCache sv (parseActivities sv) w (activityKey sv uid f))")
  case None
  then have "snd (getFromCache sv (parseActivities sv) w' (activityKey sv uid f)) = None"
    using getFromCache_snd_cong[OF assms] by metis
  with None show ?thesis by (simp add: getUserActivity_absent)
next
  case (Some cached)
  then have "snd (getFromCache sv (parseActivities sv) w' (activityKey sv uid f)) = Some cached"
    using getFromCache_snd_cong[OF assms] by metis
  with Some show ?thesis by (simp add: getUserActivity_hit)
qed

lemma calculateEngagementMetrics_hit:
  assumes "snd (getFromCache sv (parseMetrics sv) w (metricsKey sv uid t)) = Some cached"
  shows "calculateEngagementMetrics sv w uid t =
     (logger Debug ''Retrieved engagement metrics from cache'' [(''userId'', LStr uid)]
        (fst (getFromCache sv (parseMetrics sv) w (metricsKey sv uid t))),
      Inr cached)"
proof -
  obtain w1 where eq: "getFromCache sv (parseMetrics sv) w
      (generateCacheKey (localeCompareFn sv) ''metrics'' uid
        (Some [(''timeRangeInDays'', case t of None \<Rightarrow> Undefined | Some n \<Rightarrow> Num n)]))
       = (w1, Some cached)"
    using assms unfolding metricsKey_def by (metis prod.collapse)
  show ?thesis
    by (simp add: calculateEngagementMetrics_def calculateEngagementMetrics_try_def
        metricsKey_def eq)
qed

lemma calculateEngagementMetrics_miss:
  assumes "snd (getFromCache sv (parseMetrics sv) w (metricsKey sv uid t)) = None"
  shows "calculateEngagementMetrics sv w uid t =
     (let w1 = fst (getFromCache sv (parseMetrics sv) w (metricsKey sv uid t));
          w2 = fst (getUserActivity sv w1 uid (Some (createFilter sv t)))
      in case snd (getUserActivity sv w1 uid (Some (createFilter sv t))) of
           Inl err \<Rightarrow>
             (handleError ''Failed to calculate engagement metrics'' err
                [(''userId'', LStr uid)] w2,
              Inl err)
         | Inr activities \<Rightarrow>
             (setInCache sv (stringifyMetrics sv) w2 (metricsKey sv uid t)
                (processActivities (dates sv) activities) (metricsTtlSec (cacheConfig sv)),
              Inr (processActivities (dates sv) activities)))"
proof -
  obtain w1 where eq: "getFromCache sv (parseMetrics sv) w
      (generateCacheKey (localeCompareFn sv) ''metrics'' uid
        (Some [(''timeRangeInDays'', case t of None \<Rightarrow> Undefined | Some n \<Rightarrow> Num n)]))
       = (w1, None)"
    using assms unfolding metricsKey_def by (metis prod.collapse)
  obtain w2 r where eq2: "getUserActivity sv w1 uid (Some (createFilter sv t)) = (w2, r)"
    by (cases "getUserActivity sv w1 uid (Some (createFilter sv t))")
  show ?thesis
    by (simp add: calculateEngagementMetrics_def calculateEngagementMetrics_try_def
        metricsKey_def eq eq2 Let_def split: sum.splits)
qed

lemma calculateEngagementMetrics_miss_snd:
  assumes "snd (getFromCache sv (parseMetrics sv) w (metricsKey sv uid t)) = None"
  shows "snd (calculateEngagementMetrics sv w uid t) =
     (case snd (getUserActivity sv w uid (Some (createFilter sv t))) of
        Inl err \<Rightarrow> Inl err
      | Inr activities \<Rightarrow> Inr (processActivities (dates sv) activities))"
proof -
  have "snd (getUserActivity sv (fst (getFromCache sv (parseMetrics sv) w (metricsKey sv uid t)))
            uid (Some (createFilter sv t))) =
        snd (getUserActivity sv w uid (Some (createFilter sv t)))"
    by (rule getUserActivity_snd_cong) simp
  then show ?thesis
    by (simp add: calculateEngagementMetrics_miss[OF assms] Let_def split: sum.splits)
qed

text \<open>
  C4. Cache failures are absorbed and never reach the caller. For every key, a cache read
  whose store access or deserialisation throws returns absent and logs a warning; a
  rejected cache write is logged as a warning and swallowed, the store being left as it
  was. Hence, whenever the read of the activity key yields absent (by a miss or by such a
  failure), \<^verbatim>\<open>getUserActivity\<close> completes with the result of the source, whether or
  not the write fails; and whenever the reads of the metrics key and of the activity key
  yield absent, \<^verbatim>\<open>calculateEngagementMetrics\<close> completes with the metrics computed
  without caching.
\<close>

theorem cache_failures_absorbed:
  "(\<forall>err. snd (getFromCache_try sv parse w key) = Inl err \<longrightarrow>
      snd (getFromCache sv parse w key) = None \<and>
      Log Warn ''Cache retrieval failed, falling back to API''
          [(''key'', LStr key), (''error'', LFailure err)]
        \<in> set (newEvents w (fst (getFromCache sv parse w key)))) \<and>
   (\<forall>err. cacheSetexError sv key = Some err \<longrightarrow>
      cache (setInCache sv stringify w key d ttl) = cache w \<and>
      Log Warn ''Failed to cache data'' [(''key'', LStr key), (''error'', LFailure err)]
        \<in> set (newEvents w (setInCache sv stringify w key d ttl))) \<and>
   (snd (getFromCache sv (parseActivities sv) w (activityKey sv uid f)) = None \<longrightarrow>
      snd (getUserActivity sv w uid f) = fetchUncached sv uid f) \<and>
   (snd (getFromCache sv (parseMetrics sv) w (metricsKey sv uid t)) = None \<and>
    snd (getFromCache sv (parseActivities sv) w
           (activityKey sv uid (Some (createFilter sv t)))) = None \<longrightarrow>
      snd (calculateEngagementMetrics sv w uid t) = metricsUncached sv uid t)"
proof (intro conjI allI impI)
  fix err
  assume "snd (getFromCache_try sv parse w key) = Inl err"
  then show "snd (getFromCache sv parse w key) = None"
    and "Log Warn ''Cache retrieval failed, falling back to API''
          [(''key'', LStr key), (''error'', LFailure err)]
        \<in> set (newEvents w (fst (getFromCache sv parse w key)))"
    by (simp_all add: getFromCache_eq newEvents_def)
next
  fix err
  assume "cacheSetexError sv key = Some err"
  then show "cache (setInCache sv stringify w key d ttl) = cache w"
    and "Log Warn ''Failed to cache data'' [(''key'', LStr key), (''error'', LFailure err)]
        \<in> set (newEvents w (setInCache sv stringify w key d ttl))"
    by (simp_all add: setInCache_eq newEvents_def)
next
  assume "snd (getFromCache sv (parseActivities sv) w (activityKey sv uid f)) = None"
  then show "snd (getUserActivity sv w uid f) = fetchUncached sv uid f"
    by (rule getUserActivity_absent)
next
  assume a: "snd (getFromCache sv (parseMetrics sv) w (metricsKey sv uid t)) = None \<and>
    snd (getFromCache sv (parseActivities sv) w
           (activityKey sv uid (Some (createFilter sv t)))) = None"
  then show "snd (calculateEngagementMetrics sv w uid t) = metricsUncached sv uid t"
    by (simp add: calculateEngagementMetrics_miss_snd getUserActivity_absent
        metricsUncached_def)
qed

theorem cache_failures_absorbed_witness:
  "snd (getFromCache_try failingCacheService (parseActivities failingCacheService) warmWorld
          (activityKey failingCacheService ''user123'' None)) = Inl (JsError ''ECONNREFUSED'') \<and>
   snd (getFromCache failingCacheService (parseActivities failingCacheService) warmWorld
          (activityKey failingCacheService ''user123'' None)) = None \<and>
   cacheSetexError failingCacheService (activityKey failingCacheService ''user123'' None) =
     Some (JsError ''ECONNREFUSED'') \<and>
   cache (setInCache failingCacheService (stringifyActivities failingCacheService) warmWorld
            (activityKey failingCacheService ''user123'' None) mockActivities 60) =
     cache warmWorld \<and>
   snd (getUserActivity failingCacheService warmWorld ''user123'' None) =
     fetchUncached failingCacheService ''user123'' None \<and>
   fetchUncached failingCacheService ''user123'' None = Inr mockActivities \<and>
   snd (calculateEngagementMetrics failingCacheService warmWorld ''user123'' None) =
     metricsUncached failingCacheService ''user123'' None \<and>
   metricsUncached failingCacheService ''user123'' None =
     Inr (processActivities testClock mockActivities)"
proof -
  let ?sv = failingCacheService
  let ?k = "activityKey ?sv ''user123'' None"
  note inst = cache_failures_absorbed[of ?sv "parseActivities ?sv" warmWorld ?k
      "stringifyActivities ?sv" mockActivities 60 "''user123''" None None]
  have rd: "snd (getFromCache_try ?sv (parseActivities ?sv) warmWorld ?k) =
      Inl (JsError ''ECONNREFUSED'')"
    by (simp add: getFromCache_try_def failingCacheService_def testService_def)
  have wr: "cacheSetexError ?sv ?k = Some (JsError ''ECONNREFUSED'')"
    by (simp add: failingCacheService_def testService_def)
  from inst rd have absent: "snd (getFromCache ?sv (parseActivities ?sv) warmWorld ?k) = None"
    by blast
  from inst wr have kept: "cache (setInCache ?sv (stringifyActivities ?sv) warmWorld ?k
      mockActivities 60) = cache warmWorld"
    by blast
  from inst absent have act: "snd (getUserActivity ?sv warmWorld ''user123'' None) =
      fetchUncached ?sv ''user123'' None"
    by blast
  have mrd: "snd (getFromCache ?sv (parseMetrics ?sv) warmWorld (metricsKey ?sv ''user123'' None))
      = None"
    by (simp add: getFromCache_def getFromCache_try_def failingCacheService_def testService_def)
  have ard: "snd (getFromCache ?sv (parseActivities ?sv) warmWorld
      (activityKey ?sv ''user123'' (Some (createFilter ?sv None)))) = None"
    by (simp add: getFromCache_def getFromCache_try_def failingCacheService_def testService_def)
  from inst mrd ard have met: "snd (calculateEngagementMetrics ?sv warmWorld ''user123'' None) =
      metricsUncached ?sv ''user123'' None"
    by blast
  have f: "fetchUncached ?sv ''user123'' None = Inr mockActivities"
    by (simp add: fetchUncached_def testService_keys) (simp add: failingCacheService_def testService_def)
  have m: "metricsUncached ?sv ''user123'' None = Inr (processActivities testClock mockActivities)"
    by (simp add: metricsUncached_def fetchUncached_def testService_keys)
       (simp add: failingCacheService_def testService_def)
  from rd absent wr kept act f met m show ?thesis by blast
qed

lemma getUserActivity_httpCalls:
  "httpCalls (fst (getUserActivity sv w uid f)) =
     httpCalls w @
       (case snd (getFromCache sv (parseActivities sv) w (activityKey sv uid f)) of
          None \<Rightarrow> [HttpGet (activityEndpoint sv uid) f (timeoutMs (apiConfig sv))]
        | Some cached \<Rightarrow> [])"
proof (cases "snd (getFromCache sv (parseActivities sv) w (activityKey sv uid f))")
  case None
  then show ?thesis
    by (simp add: getUserActivity_miss[OF None] Let_def httpCalls_def split: sum.splits)
next
  case (Some cached)
  then show ?thesis
    by (simp add: getUserActivity_hit[OF Some] httpCalls_def)
qed

lemma calculateEngagementMetrics_miss_httpCalls:
  assumes "snd (getFromCache sv (parseMetrics sv) w (metricsKey sv uid t)) = None"
  shows "httpCalls (fst (calculateEngagementMetrics sv w uid t)) =
         httpCalls (fst (getUserActivity sv w uid (Some (createFilter sv t))))"
proof -
  let ?w1 = "fst (getFromCache sv (parseMetrics sv) w (metricsKey sv uid t))"
  let ?f = "Some (createFilter sv t)"
  have c: "cache ?w1 = cache w" by simp
  have h: "httpCalls ?w1 = httpCalls w" by (simp add: httpCalls_def)
  have "httpCalls (fst (calculateEngagementMetrics sv w uid t)) =
        httpCalls (fst (getUserActivity sv ?w1 uid ?f))"
    by (simp add: calculateEngagementMetrics_miss[OF assms] Let_def httpCalls_def
        split: sum.splits)
  also have "\<dots> = httpCalls (fst (getUserActivity sv w uid ?f))"
    by (simp only: getUserActivity_httpCalls h getFromCache_snd_cong[OF c])
  finally show ?thesis .
qed

text \<open>
  C10. For every user id, \<^verbatim>\<open>calculateEngagementMetrics\<close> with a time range of 0 days
  derives no start date, as with no time range: in both cases the filter of the fetch is
  empty. When the read of the metrics key yields absent, the call with 0 returns the
  metrics aggregated from \<^verbatim>\<open>getUserActivity\<close> with the empty filter and sends the
  source the requests of that fetch (their parameters carry no \<open>startDate\<close>); and when
  the call without a time range also finds no cached metrics, both calls return the same
  result and send the same requests.
\<close>

theorem zero_time_range_unbounded:
  "createFilter sv (Some 0) = [] \<and> createFilter sv None = [] \<and>
   (snd (getFromCache sv (parseMetrics sv) w (metricsKey sv uid (Some 0))) = None \<longrightarrow>
      snd (calculateEngagementMetrics sv w uid (Some 0)) =
        (case snd (getUserActivity sv w uid (Some [])) of
           Inl err \<Rightarrow> Inl err
         | Inr activities \<Rightarrow> Inr (processActivities (dates sv) activities)) \<and>
      httpCalls (fst (calculateEngagementMetrics sv w uid (Some 0))) =
        httpCalls (fst (getUserActivity sv w uid (Some []))) \<and>
      (snd (getFromCache sv (parseMetrics sv) w (metricsKey sv uid None)) = None \<longrightarrow>
         snd (calculateEngagementMetrics sv w uid (Some 0)) =
           snd (calculateEngagementMetrics sv w uid None) \<and>
         httpCalls (fst (calculateEngagementMetrics sv w uid (Some 0))) =
           httpCalls (fst (calculateEngagementMetrics sv w uid None))))"
proof -
  have z: "createFilter sv (Some 0) = []" and n: "createFilter sv None = []"
    by (simp_all add: createFilter_def)
  show ?thesis
    using calculateEngagementMetrics_miss_snd[of sv w uid "Some 0"]
      calculateEngagementMetrics_miss_snd[of sv w uid None]
      calculateEngagementMetrics_miss_httpCalls[of sv w uid "Some 0"]
      calculateEngagementMetrics_miss_httpCalls[of sv w uid None]
    by (simp add: z n)
qed

theorem zero_time_range_unbounded_witness:
  "snd (getFromCache testService (parseMetrics testService) coldWorld
          (metricsKey testService ''user123'' (Some 0))) = None \<and>
   snd (getFromCache testService (parseMetrics testService) coldWorld
          (metricsKey testService ''user123'' None)) = None \<and>
   snd (calculateEngagementMetrics testService coldWorld ''user123'' (Some 0)) =
     (case snd (getUserActivity testService coldWorld ''user123'' (Some [])) of
        Inl err \<Rightarrow> Inl err
      | Inr activities \<Rightarrow> Inr (processActivities (dates testService) activities)) \<and>
   httpCalls (fst (calculateEngagementMetrics testService coldWorld ''user123'' (Some 0))) =
     httpCalls (fst (getUserActivity testService coldWorld ''user123'' (Some []))) \<and>
   snd (calculateEngagementMetrics testService coldWorld ''user123'' (Some 0)) =
     snd (calculateEngagementMetrics testService coldWorld ''user123'' None) \<and>
   httpCalls (fst (calculateEngagementMetrics testService coldWorld ''user123'' (Some 0))) =
     httpCalls (fst (calculateEngagementMetrics testService coldWorld ''user123'' None))"
proof -
  have m0: "snd (getFromCache testService (parseMetrics testService) coldWorld
          (metricsKey testService ''user123'' (Some 0))) = None"
    by (simp add: getFromCache_def getFromCache_try_def coldWorld_def testService_def)
  have mN: "snd (getFromCache testService (parseMetrics testService) coldWorld
          (metricsKey testService ''user123'' None)) = None"
    by (simp add: getFromCache_def getFromCache_try_def coldWorld_def testService_def)
  from zero_time_range_unbounded[of testService coldWorld "''user123''"] m0 mN
  show ?thesis by blast
qed

text \<open>
  On the test doubles: the metrics of the unbounded fetch, the single request with empty
  parameters, and the two metrics keys (the key of the call with 0 carries a tag).
\<close>

lemma zero_time_range_values:
  "snd (calculateEngagementMetrics testService coldWorld ''user123'' (Some 0)) =
     Inr (processActivities testClock mockActivities)"
  "httpCalls (fst (calculateEngagementMetrics testService coldWorld ''user123'' (Some 0))) =
     [HttpGet ''https://api.test.com/users/user123/activity'' (Some []) 1000]"
  "metricsKey testService ''user123'' (Some 0) =
     ''user-activity:user123:metrics:dGltZVJhbmdlSW5EYXlzPTA=''"
  "metricsKey testService ''user123'' None = ''user-activity:user123:metrics''"
  by (simp_all add: calculateEngagementMetrics_def calculateEngagementMetrics_try_def
      getUserActivity_def getUserActivity_try_def getFromCache_def getFromCache_try_def
      setInCache_def setInCache_try_def logger_def createFilter_def coldWorld_def
      testService_def generateCacheKey_def httpCalls_def metricsKey_def sortWith_def
      showInt_def digitChar_def sextet_def base64Alphabet_def Let_def)

lemma uniqueUserIds_foldl:
  "distinct acc \<Longrightarrow>
     distinct (foldl (\<lambda>acc u. if u \<in> set acc then acc else acc @ [u]) acc xs) \<and>
     set (foldl (\<lambda>acc u. if u \<in> set acc then acc else acc @ [u]) acc xs) = set acc \<union> set xs"
  by (induction xs arbitrary: acc) auto

lemma uniqueUserIds_distinct: "distinct (uniqueUserIds userIds)"
  and uniqueUserIds_set: "set (uniqueUserIds userIds) = set userIds"
  using uniqueUserIds_foldl[of "[]" userIds] by (simp_all add: uniqueUserIds_def)

lemma subjectOutcomes_ids: "map fst (subjectOutcomes sv w ids t) = ids"
  by (induction ids arbitrary: w) simp_all

lemma allSettled_Cons:
  "allSettled sv w (uid # rest) t =
     (fst (allSettled sv (fst (calculateEngagementMetrics sv w uid t)) rest t),
      settled (uid, snd (calculateEngagementMetrics sv w uid t))
        # snd (allSettled sv (fst (calculateEngagementMetrics sv w uid t)) rest t))"
  by (simp add: case_prod_beta settled_def split: sum.splits)

lemma allSettled_outcomes:
  "snd (allSettled sv w ids t) = map settled (subjectOutcomes sv w ids t)"
proof (induction ids arbitrary: w)
  case Nil
  then show ?case by simp
next
  case (Cons uid rest)
  show ?case
    by (simp only: allSettled_Cons subjectOutcomes.simps snd_conv list.map Cons.IH)
qed

lemma handleError_trace_only:
  "\<exists>ctx'. trace (handleError message err ctx w) = trace w @ [Log Err message (ctx @ ctx')]"
  using handleError_trace[of message err ctx w] by auto

lemma getUserActivity_trace: "\<exists>xs. trace (fst (getUserActivity sv w uid f)) = trace w @ xs"
proof -
  obtain xs where xs: "trace (fst (getFromCache sv (parseActivities sv) w (activityKey sv uid f)))
      = trace w @ xs"
    using getFromCache_trace by blast
  show ?thesis
  proof (cases "snd (getFromCache sv (parseActivities sv) w (activityKey sv uid f))")
    case None
    show ?thesis
    proof (cases "httpResponse sv (activityEndpoint sv uid) f")
      case (Inl err)
      obtain w3 where w3: "fst (getUserActivity sv w uid f) =
          handleError ''Failed to fetch user activity'' err [(''userId'', LStr uid)] w3"
        and t3: "\<exists>ys. trace w3 = trace w @ ys"
        by (simp add: getUserActivity_miss[OF None] Let_def xs Inl)
      from t3 obtain ys where ys: "trace w3 = trace w @ ys" by blast
      from handleError_trace_only[of "''Failed to fetch user activity''" err
          "[(''userId'', LStr uid)]" w3]
      show ?thesis by (auto simp: w3 ys)
    next
      case (Inr activities)
      then show ?thesis
        by (simp add: getUserActivity_miss[OF None] Let_def xs setInCache_eq split: option.splits)
    qed
  next
    case (Some cached)
    then show ?thesis by (simp add: getUserActivity_hit[OF Some] xs)
  qed
qed

lemma calculateEngagementMetrics_trace:
  "\<exists>xs. trace (fst (calculateEngagementMetrics sv w uid t)) = trace w @ xs"
  and calculateEngagementMetrics_failure_logged:
  "snd (calculateEngagementMetrics sv w uid t) = Inl err \<Longrightarrow>
     \<exists>xs ctx'. trace (fst (calculateEngagementMetrics sv w uid t)) =
       trace w @ xs @ [Log Err ''Failed to calculate engagement metrics''
                         ((''userId'', LStr uid) # ctx')]"
proof -
  let ?k = "metricsKey sv uid t"
  let ?w1 = "fst (getFromCache sv (parseMetrics sv) w ?k)"
  let ?f = "Some (createFilter sv t)"
  let ?w2 = "fst (getUserActivity sv ?w1 uid ?f)"
  obtain xs where xs: "trace ?w1 = trace w @ xs"
    using getFromCache_trace by blast
  obtain ys where "trace ?w2 = trace ?w1 @ ys"
    using getUserActivity_trace by blast
  with xs have ys: "trace ?w2 = trace w @ xs @ ys" by simp
  show "\<exists>xs. trace (fst (calculateEngagementMetrics sv w uid t)) = trace w @ xs"
  proof (cases "snd (getFromCache sv (parseMetrics sv) w ?k)")
    case None
    show ?thesis
    proof (cases "snd (getUserActivity sv ?w1 uid ?f)")
      case (Inl e)
      from handleError_trace_only[of "''Failed to calculate engagement metrics''" e
          "[(''userId'', LStr uid)]" ?w2]
      show ?thesis
        by (auto simp: calculateEngagementMetrics_miss[OF None] Let_def Inl ys)
    next
      case (Inr activities)
      then show ?thesis
        by (simp add: calculateEngagementMetrics_miss[OF None] Let_def ys setInCache_eq
            split: option.splits)
    qed
  next
    case (Some cached)
    then show ?thesis by (simp add: calculateEngagementMetrics_hit[OF Some] xs)
  qed
  assume fails: "snd (calculateEngagementMetrics sv w uid t) = Inl err"
  show "\<exists>xs ctx'. trace (fst (calculateEngagementMetrics sv w uid t)) =
       trace w @ xs @ [Log Err ''Failed to calculate engagement metrics''
                         ((''userId'', LStr uid) # ctx')]"
  proof (cases "snd (getFromCache sv (parseMetrics sv) w ?k)")
    case None
    show ?thesis
    proof (cases "snd (getUserActivity sv ?w1 uid ?f)")
      case (Inl e)
      from handleError_trace_only[of "''Failed to calculate engagement metrics''" e
          "[(''userId'', LStr uid)]" ?w2]
      obtain ctx' where "trace (handleError ''Failed to calculate engagement metrics'' e
          [(''userId'', LStr uid)] ?w2) =
          trace w @ (xs @ ys) @ [Log Err ''Failed to calculate engagement metrics''
                         ((''userId'', LStr uid) # ctx')]"
        by (auto simp: ys)
      then show ?thesis
        by (simp only: calculateEngagementMetrics_miss[OF None] Let_def Inl sum.case fst_conv)
           blast
    next
      case (Inr activities)
      with fails show ?thesis
        by (simp add: calculateEngagementMetrics_miss[OF None] Let_def)
    qed
  next
    case (Some cached)
    with fails show ?thesis by (simp add: calculateEngagementMetrics_hit[OF Some])
  qed
qed


lemma allSettled_trace: "\<exists>xs. trace (fst (allSettled sv w ids t)) = trace w @ xs"
proof (induction ids arbitrary: w)
  case Nil
  then show ?case by simp
next
  case (Cons uid rest)
  obtain xs where xs: "trace (fst (calculateEngagementMetrics sv w uid t)) = trace w @ xs"
    using calculateEngagementMetrics_trace by blast
  from Cons.IH[of "fst (calculateEngagementMetrics sv w uid t)"] xs
  show ?case by (auto simp: allSettled_Cons simp del: allSettled.simps)
qed

lemma allSettled_failures_logged:
  "(u, Inl err) \<in> set (subjectOutcomes sv w ids t) \<Longrightarrow>
     \<exists>xs ctx'. trace (fst (allSettled sv w ids t)) = trace w @ xs \<and>
       Log Err ''Failed to calculate engagement metrics'' ((''userId'', LStr u) # ctx') \<in> set xs"
proof (induction ids arbitrary: w)
  case Nil
  then show ?case by simp
next
  case (Cons uid rest)
  let ?w1 = "fst (calculateEngagementMetrics sv w uid t)"
  from Cons.prems consider
      (here) "u = uid" "snd (calculateEngagementMetrics sv w uid t) = Inl err"
    | (later) "(u, Inl err) \<in> set (subjectOutcomes sv ?w1 rest t)"
    by auto
  then show ?case
  proof cases
    case here
    from calculateEngagementMetrics_failure_logged[OF here(2)] obtain xs ctx' where
      xs: "trace ?w1 = trace w @ xs @
        [Log Err ''Failed to calculate engagement metrics'' ((''userId'', LStr uid) # ctx')]"
      by blast
    obtain ys where "trace (fst (allSettled sv ?w1 rest t)) = trace ?w1 @ ys"
      using allSettled_trace by blast
    with xs have "trace (fst (allSettled sv w (uid # rest) t)) = trace w @
        (xs @ [Log Err ''Failed to calculate engagement metrics'' ((''userId'', LStr uid) # ctx')]
          @ ys)"
      by (simp add: allSettled_Cons del: allSettled.simps)
    with here(1) show ?thesis
      by (intro exI[of _ "xs @ [Log Err ''Failed to calculate engagement metrics''
            ((''userId'', LStr uid) # ctx')] @ ys"] exI[of _ ctx']) simp
  next
    case later
    from Cons.IH[OF later] obtain ys ctx' where
      ys: "trace (fst (allSettled sv ?w1 rest t)) = trace ?w1 @ ys"
        "Log Err ''Failed to calculate engagement metrics'' ((''userId'', LStr u) # ctx') \<in> set ys"
      by blast
    obtain xs where xs: "trace ?w1 = trace w @ xs"
      using calculateEngagementMetrics_trace by blast
    from xs ys show ?thesis
      by (intro exI[of _ "xs @ ys"] exI[of _ ctx'])
         (simp add: allSettled_Cons del: allSettled.simps)
  qed
qed

lemma Map_set_fresh: "k \<notin> fst ` set m \<Longrightarrow> Map_set k v m = m @ [(k, v)]"
  by (induction m) auto

lemma collectResult_foldl:
  assumes "distinct (map fst outs)" "distinct (map fst m0)"
    "fst ` set m0 \<inter> fst ` set outs = {}"
  shows "distinct (map fst (snd (foldl (collectResult n) (w0, m0) (map settled outs)))) \<and>
     set (snd (foldl (collectResult n) (w0, m0) (map settled outs))) =
       set m0 \<union> {(u, x). (u, Inr x) \<in> set outs} \<and>
     (\<exists>xs. trace (fst (foldl (collectResult n) (w0, m0) (map settled outs))) = trace w0 @ xs)"
  using assms
proof (induction outs arbitrary: w0 m0)
  case Nil
  then show ?case by simp
next
  case (Cons out outs)
  obtain u r where out: "out = (u, r)" by (cases out)
  have d: "distinct (map fst outs)"
    using Cons.prems(1) by simp
  show ?case
  proof (cases r)
    case (Inl reason)
    let ?w = "logger Err ''Failed to process user metrics''
                [(''error'', LFailure reason), (''userIdsCount'', LNum (int n))] w0"
    have step: "foldl (collectResult n) (w0, m0) (map settled (out # outs)) =
        foldl (collectResult n) (?w, m0) (map settled outs)"
      by (simp add: collectResult_def settled_def out Inl)
    have dj: "fst ` set m0 \<inter> fst ` set outs = {}"
      using Cons.prems(3) by auto
    have s: "{(u', x). (u', Inr x) \<in> set (out # outs)} = {(u', x). (u', Inr x) \<in> set outs}"
      by (auto simp: out Inl)
    from Cons.IH[OF d Cons.prems(2) dj, of ?w] obtain xs where
      ih: "distinct (map fst (snd (foldl (collectResult n) (?w, m0) (map settled outs))))"
        "set (snd (foldl (collectResult n) (?w, m0) (map settled outs))) =
           set m0 \<union> {(u, x). (u, Inr x) \<in> set outs}"
        "trace (fst (foldl (collectResult n) (?w, m0) (map settled outs))) = trace ?w @ xs"
      by blast
    have "trace (fst (foldl (collectResult n) (?w, m0) (map settled outs))) =
        trace w0 @ (Log Err ''Failed to process user metrics''
                [(''error'', LFailure reason), (''userIdsCount'', LNum (int n))] # xs)"
      by (simp add: ih(3))
    then have "\<exists>ys. trace (fst (foldl (collectResult n) (?w, m0) (map settled outs))) =
        trace w0 @ ys"
      by blast
    with ih(1,2) show ?thesis
      by (simp only: step s)
  next
    case (Inr metrics)
    have fresh: "u \<notin> fst ` set m0"
      using Cons.prems(3) out by auto
    have step: "foldl (collectResult n) (w0, m0) (map settled (out # outs)) =
        foldl (collectResult n) (w0, m0 @ [(u, metrics)]) (map settled outs)"
      by (simp add: collectResult_def settled_def out Inr Map_set_fresh[OF fresh])
    have d2: "distinct (map fst (m0 @ [(u, metrics)]))"
      using Cons.prems(2) fresh by auto
    have dj: "fst ` set (m0 @ [(u, metrics)]) \<inter> fst ` set outs = {}"
      using Cons.prems(1,3) out by auto
    have s: "set (m0 @ [(u, metrics)]) \<union> {(u', x). (u', Inr x) \<in> set outs} =
        set m0 \<union> {(u', x). (u', Inr x) \<in> set (out # outs)}"
      by (auto simp: out Inr)
    from Cons.IH[OF d d2 dj, of w0]
    show ?thesis
      by (simp only: step s)
  qed
qed

lemma bulkProcessUserMetrics_eq:
  "bulkProcessUserMetrics sv w userIds t =
     (let ids = uniqueUserIds userIds;
          c = foldl (collectResult (length ids)) (fst (allSettled sv w ids t), [])
                (snd (allSettled sv w ids t))
      in (logger Info ''Bulk processed user metrics''
            [(''requested'', LNum (int (length ids))),
             (''processed'', LNum (int (length (snd c))))] (fst c),
          snd c))"
  by (simp add: bulkProcessUserMetrics_def case_prod_beta Let_def)

text \<open>
  C3. For every list of subject ids, \<^verbatim>\<open>bulkProcessUserMetrics\<close> returns a mapping
  (it has no failing outcome) over the unique ids: each unique id is computed once, the
  mapping has one entry per id whose computation succeeded, holding its metrics, and no
  entry for an id whose computation failed; every such failure is logged as an error with
  the id of its subject among the calls the bulk run makes.
\<close>

theorem bulk_partial_results:
  "distinct (uniqueUserIds userIds) \<and> set (uniqueUserIds userIds) = set userIds \<and>
   map fst (subjectOutcomes sv w (uniqueUserIds userIds) t) = uniqueUserIds userIds \<and>
   distinct (map fst (snd (bulkProcessUserMetrics sv w userIds t))) \<and>
   (\<forall>u metrics.
      (map_of (snd (bulkProcessUserMetrics sv w userIds t)) u = Some metrics) =
      ((u, Inr metrics) \<in> set (subjectOutcomes sv w (uniqueUserIds userIds) t))) \<and>
   (\<forall>u reason.
      (u, Inl reason) \<in> set (subjectOutcomes sv w (uniqueUserIds userIds) t) \<longrightarrow>
        map_of (snd (bulkProcessUserMetrics sv w userIds t)) u = None \<and>
        (\<exists>ctx. Log Err ''Failed to calculate engagement metrics'' ctx
                 \<in> set (newEvents w (fst (bulkProcessUserMetrics sv w userIds t))) \<and>
               (''userId'', LStr u) \<in> set ctx))"
proof -
  let ?ids = "uniqueUserIds userIds"
  let ?outs = "subjectOutcomes sv w ?ids t"
  let ?a = "allSettled sv w ?ids t"
  let ?c = "foldl (collectResult (length ?ids)) (fst ?a, []) (snd ?a)"
  let ?m = "snd (bulkProcessUserMetrics sv w userIds t)"
  have m: "?m = snd ?c"
    by (simp add: bulkProcessUserMetrics_eq Let_def)
  have tr: "trace (fst (bulkProcessUserMetrics sv w userIds t)) = trace (fst ?c) @
      [Log Info ''Bulk processed user metrics''
        [(''requested'', LNum (int (length ?ids))),
         (''processed'', LNum (int (length (snd ?c))))]]"
    by (simp add: bulkProcessUserMetrics_eq Let_def)
  have douts: "distinct (map fst ?outs)"
    by (simp add: subjectOutcomes_ids uniqueUserIds_distinct)
  from collectResult_foldl[of ?outs "[]" "length ?ids" "fst ?a", OF douts]
  have dm: "distinct (map fst ?m)"
    and sm: "set ?m = {(u, x). (u, Inr x) \<in> set ?outs}"
    and ext: "\<exists>xs. trace (fst ?c) = trace (fst ?a) @ xs"
    by (simp_all add: m allSettled_outcomes)
  have present: "(map_of ?m u = Some x) = ((u, Inr x) \<in> set ?outs)" for u x
    using dm sm by (simp add: map_of_eq_Some_iff)
  have failed: "map_of ?m u = None \<and>
        (\<exists>ctx. Log Err ''Failed to calculate engagement metrics'' ctx
                 \<in> set (newEvents w (fst (bulkProcessUserMetrics sv w userIds t))) \<and>
               (''userId'', LStr u) \<in> set ctx)"
    if f: "(u, Inl reason) \<in> set ?outs" for u reason
  proof
    show "map_of ?m u = None"
    proof (cases "map_of ?m u")
      case None
      then show ?thesis .
    next
      case (Some x)
      then have "(u, Inr x) \<in> set ?outs" by (simp add: present)
      with f douts have "Inr x = (Inl reason :: failure + EngagementMetrics)"
        by (meson eq_key_imp_eq_value)
      then show ?thesis by simp
    qed
    from allSettled_failures_logged[OF f] obtain xs ctx' where
      xs: "trace (fst ?a) = trace w @ xs"
        "Log Err ''Failed to calculate engagement metrics'' ((''userId'', LStr u) # ctx') \<in> set xs"
      by blast
    from ext obtain ys where ys: "trace (fst ?c) = trace (fst ?a) @ ys" by blast
    have "Log Err ''Failed to calculate engagement metrics'' ((''userId'', LStr u) # ctx')
        \<in> set (newEvents w (fst (bulkProcessUserMetrics sv w userIds t)))"
      using xs by (simp add: newEvents_def tr ys)
    then show "\<exists>ctx. Log Err ''Failed to calculate engagement metrics'' ctx
                 \<in> set (newEvents w (fst (bulkProcessUserMetrics sv w userIds t))) \<and>
               (''userId'', LStr u) \<in> set ctx"
      by (intro exI[of _ "(''userId'', LStr u) # ctx'"]) simp
  qed
  show ?thesis
    using uniqueUserIds_distinct[of userIds] uniqueUserIds_set[of userIds]
      subjectOutcomes_ids[of sv w ?ids t] dm present failed
    by blast
qed


lemma bulk_example_outcomes:
  "uniqueUserIds [''user123'', ''user404'', ''user123''] = [''user123'', ''user404'']"
  "subjectOutcomes testService coldWorld [''user123'', ''user404''] None =
     [(''user123'', Inr (processActivities testClock mockActivities)),
      (''user404'', Inl (AxiosError (Some 404) (Some ''Not Found'')
                          (Some ''https://api.test.com/users/user404/activity'')
                          ''Request failed with status code 404''))]"
  by (simp_all add: uniqueUserIds_def calculateEngagementMetrics_def
      calculateEngagementMetrics_try_def getUserActivity_def getUserActivity_try_def
      getFromCache_def getFromCache_try_def setInCache_def setInCache_try_def logger_def
      handleError_def createFilter_def coldWorld_def testService_def generateCacheKey_def
      Let_def)

theorem bulk_partial_results_witness:
  "(''user404'', Inl (AxiosError (Some 404) (Some ''Not Found'')
                          (Some ''https://api.test.com/users/user404/activity'')
                          ''Request failed with status code 404''))
     \<in> set (subjectOutcomes testService coldWorld
               (uniqueUserIds [''user123'', ''user404'', ''user123'']) None) \<and>
   map_of (snd (bulkProcessUserMetrics testService coldWorld
                  [''user123'', ''user404'', ''user123''] None)) ''user404'' = None \<and>
   (\<exists>ctx. Log Err ''Failed to calculate engagement metrics'' ctx
            \<in> set (newEvents coldWorld
                     (fst (bulkProcessUserMetrics testService coldWorld
                             [''user123'', ''user404'', ''user123''] None))) \<and>
          (''userId'', LStr ''user404'') \<in> set ctx) \<and>
   map_of (snd (bulkProcessUserMetrics testService coldWorld
                  [''user123'', ''user404'', ''user123''] None)) ''user123'' =
     Some (processActivities testClock mockActivities)"
proof -
  let ?ids = "[''user123'', ''user404'', ''user123'']"
  let ?err = "AxiosError (Some 404) (Some ''Not Found'')
                (Some ''https://api.test.com/users/user404/activity'')
                ''Request failed with status code 404''"
  note inst = bulk_partial_results[of ?ids testService coldWorld None]
  have f: "(''user404'', Inl ?err)
      \<in> set (subjectOutcomes testService coldWorld (uniqueUserIds ?ids) None)"
    by (simp only: bulk_example_outcomes) simp
  have s: "(''user123'', Inr (processActivities testClock mockActivities))
      \<in> set (subjectOutcomes testService coldWorld (uniqueUserIds ?ids) None)"
    by (simp only: bulk_example_outcomes) simp
  from inst f have 1: "map_of (snd (bulkProcessUserMetrics testService coldWorld ?ids None))
        ''user404'' = None \<and>
      (\<exists>ctx. Log Err ''Failed to calculate engagement metrics'' ctx
            \<in> set (newEvents coldWorld
                     (fst (bulkProcessUserMetrics testService coldWorld ?ids None))) \<and>
          (''userId'', LStr ''user404'') \<in> set ctx)"
    by blast
  from inst s have 2: "map_of (snd (bulkProcessUserMetrics testService coldWorld ?ids None))
        ''user123'' = Some (processActivities testClock mockActivities)"
    by blast
  from f 1 2 show ?thesis by blast
qed

end
